theory Spec2Isabelle
  imports Main "HOL-Library.Word"
begin

section \<open>The review vectorizer: a model of the batch vectorization pipeline\<close>

text \<open>
  The Go service pages through clean reviews, splits every page into sub-batches, asks an
  embedding provider for vectors and stores one row per review. The functions below follow
  \<^verbatim>\<open>internal/service\<close> (service, embedder, OpenAI client) and
  \<^verbatim>\<open>internal/storage\<close> (repository, models) function by function.

  Everything the service does to the outside world is explicit. A \<open>world\<close> value holds
  what a run changes or consumes (the provider requests sent so far, the random numbers
  drawn, the page queries issued, the statements executed, the identifiers generated and the
  table \<^verbatim>\<open>review_embeddings\<close>); an \<open>env\<close> value holds what the run cannot
  influence (what the provider answers to the k-th request, whether the k-th statement
  fails, the table \<^verbatim>\<open>clean_reviews\<close>, when the context is cancelled). Logging and
  sleeping between attempts are not part of the model.
\<close>

subsection \<open>Go values\<close>

text \<open>
  A Go string is modelled as the list of its Unicode code points, Go's \<^verbatim>\<open>rune\<close>s
  (valid UTF-8 is assumed, as the database delivers it). \<^verbatim>\<open>len(s)\<close> counts bytes, so it is the sum of the UTF-8
  lengths of the code points; \<^verbatim>\<open>unicode.IsSpace\<close> is the White_Space property.
  Identifiers, model names and messages, whose bytes never matter, are plain \<open>string\<close>s.
\<close>

type_synonym rune = int
type_synonym gostring = "rune list"

definition utf8_len :: "rune \<Rightarrow> nat" where
  "utf8_len r = (if r < 0x80 then 1 else if r < 0x800 then 2 else if r < 0x10000 then 3 else 4)"

definition go_len :: "gostring \<Rightarrow> nat" where
  "go_len s = sum_list (map utf8_len s)"

definition IsSpace :: "rune \<Rightarrow> bool" where
  "IsSpace r \<longleftrightarrow>
     r \<in> {0x09, 0x0A, 0x0B, 0x0C, 0x0D, 0x20, 0x85, 0xA0, 0x1680, 0x2028, 0x2029, 0x202F, 0x205F, 0x3000}
     \<or> (0x2000 \<le> r \<and> r \<le> 0x200A)"

definition TrimSpace :: "gostring \<Rightarrow> gostring" where
  "TrimSpace s = rev (dropWhile IsSpace (rev (dropWhile IsSpace s)))"

text \<open>
  \<^verbatim>\<open>strings.Fields\<close> scans the string once; \<open>cur\<close> is the field being read. It
  returns the maximal runs of non-space code points, in order.
\<close>

fun fields_from :: "gostring \<Rightarrow> gostring \<Rightarrow> gostring list" where
  "fields_from cur [] = (if cur = [] then [] else [cur])"
| "fields_from cur (r # rs) =
     (if IsSpace r then (if cur = [] then fields_from [] rs else cur # fields_from [] rs)
      else fields_from (cur @ [r]) rs)"

definition Fields :: "gostring \<Rightarrow> gostring list" where
  "Fields s = fields_from [] s"

fun Join :: "gostring list \<Rightarrow> gostring \<Rightarrow> gostring" where
  "Join [] sep = []"
| "Join [e] sep = e"
| "Join (e # es) sep = e @ sep @ Join es sep"

text \<open>
  A slice expression \<^verbatim>\<open>xs[i:j]\<close>. Every use below has \<open>i \<le> j \<le> length xs\<close>, where Go
  does not panic.
\<close>

definition slice :: "'a list \<Rightarrow> nat \<Rightarrow> nat \<Rightarrow> 'a list" where
  "slice xs i j = take (j - i) (drop i xs)"

text \<open>
  Errors are values: \<^verbatim>\<open>fmt.Errorf\<close> with and without a wrapped cause (\<^verbatim>\<open>%w\<close>). A Go
  result pair \<^verbatim>\<open>(T, error)\<close> is a pair of the value and an optional error; a function
  that can panic returns an \<open>outcome\<close>.
\<close>

datatype fmt_arg = Num nat | Str string

datatype error = Errorf string | Wrapf string "fmt_arg list" error

datatype 'a outcome = Return 'a | Panic string

subsection \<open>Data model\<close>

text \<open>\<^verbatim>\<open>storage.CleanReview\<close>, with the fields the page query scans.\<close>

record CleanReview =
  ID :: string
  AppID :: string
  Country :: string
  Rating :: "16 word"
  Language :: string
  ContentClean :: gostring
  ContentEN :: "gostring option"
  ResponseContentClean :: "gostring option"

text \<open>
  \<^verbatim>\<open>storage.Vector\<close>. A nil slice and an empty slice are both the empty list: the
  code only ever takes their length. \<^verbatim>\<open>CreatedAt\<close> is stamped from the wall clock
  and is never written to the table, so it is left out.
\<close>

record 'f Vector =
  EmbeddingID :: string
  ReviewID :: string
  AppID :: string
  Language :: string
  Rating :: "16 word"
  Country :: string
  Model :: string
  Dim :: nat
  ContentVec :: "'f list"
  ResponseVec :: "'f list"

record VectorizeResult =
  Processed :: nat
  Skipped :: nat
  Failed :: nat
  ReviewIDs :: "string list"

text \<open>
  \<^verbatim>\<open>storage.CleanReviewFilters\<close> and \<^verbatim>\<open>service.VectorizeRequest\<close>: the request
  has the filter's fields and the limit; \<^verbatim>\<open>processAllReviews\<close> copies them one by one.
\<close>

record CleanReviewFilters =
  ForceRecompute :: bool
  FilterAppID :: string
  Countries :: "string list"
  Languages :: "string list"
  DateFrom :: string
  DateTo :: string

record VectorizeRequest = CleanReviewFilters +
  Limit :: int

text \<open>
  The configuration (package \<^verbatim>\<open>config\<close>) supplies sizes and counts; they are natural
  numbers here. The timeout is a \<^verbatim>\<open>time.Duration\<close>, an integer.
\<close>

record OpenAIConfig =
  APIKey :: string
  BaseURL :: string
  Model :: string
  MaxRetries :: nat
  Timeout :: int

record VectorizerConfig =
  BatchSize :: nat
  Model :: string
  MaxVectorLength :: nat

record Config =
  OpenAI :: OpenAIConfig
  Vectorizer :: VectorizerConfig

text \<open>The embeddings endpoint: request body and the \<^verbatim>\<open>data\<close> array of the response.\<close>

record EmbeddingRequest =
  Input :: "gostring list"
  Model :: string

record 'd EmbeddingData =
  Embedding :: "'d list"
  Index :: int

record 'd EmbeddingResponse =
  Data :: "'d EmbeddingData list"

text \<open>Rows of the two tables; the columns carry the aliases \<^verbatim>\<open>cr\<close> and \<^verbatim>\<open>re\<close> of the page query.\<close>

record clean_reviews_row =
  cr_id :: string
  cr_app_id :: string
  cr_country :: string
  cr_rating :: "16 word"
  cr_language :: string
  cr_content_clean :: "gostring option"
  cr_content_en :: "gostring option"
  cr_response_content_clean :: "gostring option"
  cr_is_contentful :: bool
  cr_reviewed_at :: int

record 'f review_embeddings_row =
  re_embedding_id :: string
  re_review_id :: string
  re_app_id :: string
  re_language :: string
  re_rating :: "16 word"
  re_country :: string
  re_model :: string
  re_dim :: nat
  re_content_vec :: "'f list"
  re_response_vec :: "'f list option"

text \<open>
  The environment of a run. \<open>'d\<close> stands for \<^verbatim>\<open>float64\<close> and \<open>'f\<close> for
  \<^verbatim>\<open>float32\<close>; no arithmetic is done on either.
  \<^item> \<open>respond k req\<close>: what \<^verbatim>\<open>makeRequest\<close> returns for the k-th request sent
    (the HTTP exchange and the JSON decoding are the provider's side);
  \<^item> \<open>float32\<close>: the conversion \<^verbatim>\<open>float32(val)\<close>;
  \<^item> \<open>rand_value k\<close>: \<^verbatim>\<open>float32(rand.Float64() * 0.01)\<close> at the k-th draw from the
    process-wide source;
  \<^item> \<open>clean_reviews\<close>: the source table, which the service only reads;
  \<^item> \<open>matches\<close>: the optional clauses of the page query (app id, countries, languages,
    dates), evaluated by the database;
  \<^item> \<open>query_fault k\<close>, \<open>exec_fault k\<close>: the error, if any, of the k-th page query and of
    the k-th insert statement (connectivity, scan errors, other constraints);
  \<^item> \<open>uuid k\<close>: the k-th generated identifier;
  \<^item> \<open>ctx_done k\<close>: whether the context is cancelled when it is polled after k page
    queries.
\<close>

record ('d, 'f) env =
  respond :: "nat \<Rightarrow> EmbeddingRequest \<Rightarrow> error + 'd EmbeddingResponse"
  float32 :: "'d \<Rightarrow> 'f"
  rand_value :: "nat \<Rightarrow> 'f"
  clean_reviews :: "clean_reviews_row list"
  matches :: "CleanReviewFilters \<Rightarrow> clean_reviews_row \<Rightarrow> bool"
  query_fault :: "nat \<Rightarrow> error option"
  exec_fault :: "nat \<Rightarrow> error option"
  uuid :: "nat \<Rightarrow> string"
  ctx_done :: "nat \<Rightarrow> bool"

record 'f world =
  requests :: "EmbeddingRequest list"
  draws :: nat
  queries :: "(nat \<times> nat) list"
  execs :: nat
  uuids :: nat
  review_embeddings :: "'f review_embeddings_row list"

subsection \<open>Text preprocessor (\<^verbatim>\<open>preprocessText\<close>)\<close>

definition preprocessText :: "gostring \<Rightarrow> gostring" where
  "preprocessText text =
     (let text1 = TrimSpace text;
          text2 = Join (Fields text1) [0x20]
      in if go_len text2 < 3 then [] else text2)"

subsection \<open>OpenAI client\<close>

text \<open>
  \<^verbatim>\<open>NewOpenAIClient\<close>. The client is the configuration it keeps (its fields
  \<^verbatim>\<open>apiKey\<close> and \<^verbatim>\<open>baseURL\<close> are copies of the configuration's); a
  \<^verbatim>\<open>time.Duration\<close> counts nanoseconds.
\<close>

definition Second :: int where
  "Second = 1000000000"

definition NewOpenAIClient :: "OpenAIConfig \<Rightarrow> error + OpenAIConfig" where
  "NewOpenAIClient cfg =
     (if APIKey cfg = [] then Inl (Errorf ''OpenAI API key is required'')
      else
        (let cfg1 = (if BaseURL cfg = [] then cfg\<lparr>BaseURL := ''https://api.openai.com/v1''\<rparr> else cfg);
             cfg2 = (if Timeout cfg1 = 0 then cfg1\<lparr>Timeout := 30 * Second\<rparr> else cfg1)
         in Inr cfg2))"

definition makeRequest ::
  "('d, 'f) env \<Rightarrow> EmbeddingRequest \<Rightarrow> 'f world \<Rightarrow> (error + 'd EmbeddingResponse) \<times> 'f world" where
  "makeRequest env req w =
     (respond env (length (requests w)) req, w\<lparr>requests := requests w @ [req]\<rparr>)"

text \<open>
  The retry loop of \<^verbatim>\<open>OpenAIClient.processBatch\<close>:
  \<^verbatim>\<open>for attempt := 0; attempt <= c.cfg.MaxRetries; attempt++\<close>. The argument \<open>prev\<close>
  holds the variables \<^verbatim>\<open>resp\<close> and \<^verbatim>\<open>err\<close>, both nil (\<open>None\<close>) before the
  first attempt.
\<close>

function retry_loop ::
  "('d, 'f) env \<Rightarrow> nat \<Rightarrow> EmbeddingRequest \<Rightarrow> nat \<Rightarrow> (error + 'd EmbeddingResponse) option
     \<Rightarrow> 'f world \<Rightarrow> (error + 'd EmbeddingResponse) option \<times> 'f world" where
  "retry_loop env maxRetries req attempt prev w =
     (if attempt \<le> maxRetries then
        (case makeRequest env req w of
           (Inr resp, w1) \<Rightarrow> (Some (Inr resp), w1)
         | (Inl err, w1) \<Rightarrow> retry_loop env maxRetries req (attempt + 1) (Some (Inl err)) w1)
      else (prev, w))"
  by pat_completeness auto
termination
  by (relation "measure (\<lambda>(env, maxRetries, req, attempt, prev, w). Suc maxRetries - attempt)") auto

definition OpenAIClient_processBatch ::
  "('d, 'f) env \<Rightarrow> OpenAIConfig \<Rightarrow> gostring list \<Rightarrow> 'f world
     \<Rightarrow> ('f list list \<times> error option) outcome \<times> 'f world" where
  "OpenAIClient_processBatch env cfg texts w =
     (let req = \<lparr>Input = texts, EmbeddingRequest.Model = OpenAIConfig.Model cfg\<rparr> in
      case retry_loop env (MaxRetries cfg) req 0 None w of
        (Some (Inl err), w1) \<Rightarrow> (Return ([], Some (Wrapf ''all retry attempts failed: %w'' [] err)), w1)
      | (Some (Inr resp), w1) \<Rightarrow>
          (Return (map (\<lambda>embedding. map (float32 env) (Embedding embedding)) (Data resp), None), w1)
      | (None, w1) \<Rightarrow> (Panic ''nil pointer dereference'', w1))"

text \<open>
  \<^verbatim>\<open>CreateEmbeddings\<close> sends the texts in chunks of 10 and stops at the first chunk
  that fails.
\<close>

function CreateEmbeddings_loop ::
  "('d, 'f) env \<Rightarrow> OpenAIConfig \<Rightarrow> gostring list \<Rightarrow> nat \<Rightarrow> 'f list list \<Rightarrow> 'f world
     \<Rightarrow> ('f list list \<times> error option) outcome \<times> 'f world" where
  "CreateEmbeddings_loop env cfg texts i allVectors w =
     (if i < length texts then
        (let end = (if i + 10 > length texts then length texts else i + 10);
             batch = slice texts i end
         in case OpenAIClient_processBatch env cfg batch w of
              (Return (vectors, None), w1) \<Rightarrow>
                 CreateEmbeddings_loop env cfg texts (i + 10) (allVectors @ vectors) w1
            | (Return (vectors, Some err), w1) \<Rightarrow>
                 (Return ([], Some (Wrapf ''failed to process batch %d-%d: %w'' [Num i, Num end] err)), w1)
            | (Panic p, w1) \<Rightarrow> (Panic p, w1))
      else (Return (allVectors, None), w))"
  by pat_completeness auto
termination
  by (relation "measure (\<lambda>(env, cfg, texts, i, allVectors, w). length texts - i)") auto

definition CreateEmbeddings ::
  "('d, 'f) env \<Rightarrow> OpenAIConfig \<Rightarrow> gostring list \<Rightarrow> 'f world
     \<Rightarrow> ('f list list \<times> error option) outcome \<times> 'f world" where
  "CreateEmbeddings env cfg texts w =
     (if length texts = 0 then (Return ([], None), w)
      else CreateEmbeddings_loop env cfg texts 0 [] w)"

subsection \<open>Embedding providers\<close>

text \<open>The remote provider, \<^verbatim>\<open>OpenAIEmbedder.EmbedBatch\<close>.\<close>

definition OpenAIEmbedder_EmbedBatch ::
  "('d, 'f) env \<Rightarrow> OpenAIConfig \<Rightarrow> gostring list \<Rightarrow> 'f world
     \<Rightarrow> ('f list list \<times> error option) outcome \<times> 'f world" where
  "OpenAIEmbedder_EmbedBatch env cfg inputs w =
     (if length inputs = 0 then (Return ([], None), w)
      else
        (let processedInputs = filter (\<lambda>processed. processed \<noteq> []) (map preprocessText inputs) in
         if length processedInputs = 0
         then (Return ([], Some (Errorf ''no valid inputs after preprocessing'')), w)
         else
           (case CreateEmbeddings env cfg processedInputs w of
              (Return (vectors, Some err), w1) \<Rightarrow>
                 (Return ([], Some (Wrapf ''failed to generate embeddings: %w'' [] err)), w1)
            | (Return (vectors, None), w1) \<Rightarrow> (Return (vectors, None), w1)
            | (Panic p, w1) \<Rightarrow> (Panic p, w1))))"

text \<open>
  The fallback provider, \<^verbatim>\<open>StubEmbedder.EmbedBatch\<close>: the inner loop fills one
  vector of \<open>dim\<close> entries, the outer loop makes one vector per input.
\<close>

fun stub_vector :: "('d, 'f) env \<Rightarrow> nat \<Rightarrow> 'f world \<Rightarrow> 'f list \<times> 'f world" where
  "stub_vector env 0 w = ([], w)"
| "stub_vector env (Suc n) w =
     (let v = rand_value env (draws w);
          (vs, w1) = stub_vector env n (w\<lparr>draws := Suc (draws w)\<rparr>)
      in (v # vs, w1))"

fun stub_vectors :: "('d, 'f) env \<Rightarrow> nat \<Rightarrow> gostring list \<Rightarrow> 'f world \<Rightarrow> 'f list list \<times> 'f world" where
  "stub_vectors env dim [] w = ([], w)"
| "stub_vectors env dim (input # inputs) w =
     (let (vector, w1) = stub_vector env dim w;
          (vectors, w2) = stub_vectors env dim inputs w1
      in (vector # vectors, w2))"

definition StubEmbedder_EmbedBatch ::
  "('d, 'f) env \<Rightarrow> nat \<Rightarrow> gostring list \<Rightarrow> 'f world
     \<Rightarrow> ('f list list \<times> error option) outcome \<times> 'f world" where
  "StubEmbedder_EmbedBatch env dim inputs w =
     (if length inputs = 0 then (Return ([], None), w)
      else (let (vectors, w1) = stub_vectors env dim inputs w in (Return (vectors, None), w1)))"

text \<open>
  The interface \<^verbatim>\<open>Embedder\<close> with its two implementations: the remote one holds
  its client, the fallback one its dimension.
\<close>

datatype Embedder = OpenAIEmbedder OpenAIConfig | StubEmbedder nat

fun EmbedBatch ::
  "('d, 'f) env \<Rightarrow> Embedder \<Rightarrow> gostring list \<Rightarrow> 'f world
     \<Rightarrow> ('f list list \<times> error option) outcome \<times> 'f world" where
  "EmbedBatch env (OpenAIEmbedder cfg) inputs w = OpenAIEmbedder_EmbedBatch env cfg inputs w"
| "EmbedBatch env (StubEmbedder dim) inputs w = StubEmbedder_EmbedBatch env dim inputs w"

subsection \<open>Repository (\<^verbatim>\<open>postgresRepository\<close>)\<close>

text \<open>
  The page query. \<^verbatim>\<open>review_id\<close> is \<^verbatim>\<open>UNIQUE\<close>, so a review joins with at
  most one embedding row and \<^verbatim>\<open>re.review_id IS NULL\<close> says that it has none. With
  force-recompute the clause is \<^verbatim>\<open>(re.review_id IS NULL OR $1::bool = true)\<close> with
  \<^verbatim>\<open>true\<close> bound to the parameter. Rows of equal \<^verbatim>\<open>reviewed_at\<close> keep the
  table's order.
\<close>

definition where_clause ::
  "('d, 'f) env \<Rightarrow> CleanReviewFilters \<Rightarrow> 'f review_embeddings_row list \<Rightarrow> clean_reviews_row \<Rightarrow> bool" where
  "where_clause env filters embeddings cr \<longleftrightarrow>
     cr_is_contentful cr = True \<and> cr_content_clean cr \<noteq> None
     \<and> (if ForceRecompute filters
        then (cr_id cr \<notin> set (map re_review_id embeddings) \<or> True = True)
        else cr_id cr \<notin> set (map re_review_id embeddings))
     \<and> matches env filters cr"

definition eligible :: "('d, 'f) env \<Rightarrow> CleanReviewFilters \<Rightarrow> 'f world \<Rightarrow> clean_reviews_row list" where
  "eligible env filters w =
     sort_key (\<lambda>cr. - cr_reviewed_at cr)
       (filter (where_clause env filters (review_embeddings w)) (clean_reviews env))"

definition scan_row :: "clean_reviews_row \<Rightarrow> CleanReview" where
  "scan_row cr =
     \<lparr>ID = cr_id cr, CleanReview.AppID = cr_app_id cr, CleanReview.Country = cr_country cr,
      CleanReview.Rating = cr_rating cr, CleanReview.Language = cr_language cr,
      ContentClean = (case cr_content_clean cr of Some text \<Rightarrow> text | None \<Rightarrow> []),
      ContentEN = cr_content_en cr,
      ResponseContentClean = cr_response_content_clean cr\<rparr>"

definition GetCleanReviewsForVectorization ::
  "('d, 'f) env \<Rightarrow> CleanReviewFilters \<Rightarrow> nat \<Rightarrow> nat \<Rightarrow> 'f world
     \<Rightarrow> (CleanReview list \<times> error option) \<times> 'f world" where
  "GetCleanReviewsForVectorization env filters limit offset w =
     (let w1 = w\<lparr>queries := queries w @ [(limit, offset)]\<rparr> in
      case query_fault env (length (queries w)) of
        Some err \<Rightarrow> (([], Some err), w1)
      | None \<Rightarrow> ((map scan_row (take limit (drop offset (eligible env filters w))), None), w1))"

text \<open>
  \<^verbatim>\<open>INSERT ... ON CONFLICT (review_id) DO NOTHING\<close>: a row whose \<^verbatim>\<open>review_id\<close> is
  present is skipped without an error; the primary key \<^verbatim>\<open>embedding_id\<close> is not the
  conflict target, so a clash there is an error.
\<close>

definition insert_on_conflict_do_nothing ::
  "'f review_embeddings_row \<Rightarrow> 'f world \<Rightarrow> error option \<times> 'f world" where
  "insert_on_conflict_do_nothing row w =
     (if re_review_id row \<in> set (map re_review_id (review_embeddings w)) then (None, w)
      else if re_embedding_id row \<in> set (map re_embedding_id (review_embeddings w))
      then (Some (Errorf ''duplicate key value violates unique constraint''), w)
      else (None, w\<lparr>review_embeddings := review_embeddings w @ [row]\<rparr>))"

text \<open>The values bound to the statement; a vector without entries is bound as NULL.\<close>

definition insert_values :: "'f Vector \<Rightarrow> 'f review_embeddings_row" where
  "insert_values vector =
     (let contentVec = ContentVec vector;
          responseVec = (if length (ResponseVec vector) > 0 then Some (ResponseVec vector) else None)
      in \<lparr>re_embedding_id = EmbeddingID vector, re_review_id = ReviewID vector,
          re_app_id = Vector.AppID vector, re_language = Vector.Language vector,
          re_rating = Vector.Rating vector, re_country = Vector.Country vector,
          re_model = Vector.Model vector, re_dim = Dim vector,
          re_content_vec = contentVec, re_response_vec = responseVec\<rparr>)"

definition UpsertEmbedding ::
  "('d, 'f) env \<Rightarrow> 'f Vector \<Rightarrow> 'f world \<Rightarrow> error option \<times> 'f world" where
  "UpsertEmbedding env vector w =
     (let w1 = w\<lparr>execs := Suc (execs w)\<rparr>;
          (err, w2) = (case exec_fault env (execs w) of
                         Some fault \<Rightarrow> (Some fault, w1)
                       | None \<Rightarrow> insert_on_conflict_do_nothing (insert_values vector) w1)
      in case err of
           Some err \<Rightarrow>
             (Some (Wrapf ''failed to upsert embedding for review %s: %w'' [Str (ReviewID vector)] err), w2)
         | None \<Rightarrow> (None, w2))"

definition NewVector ::
  "('d, 'f) env \<Rightarrow> string \<Rightarrow> string \<Rightarrow> 'f list \<Rightarrow> 'f world \<Rightarrow> 'f Vector \<times> 'f world" where
  "NewVector env reviewID appID contentVec w =
     (\<lparr>EmbeddingID = uuid env (uuids w), ReviewID = reviewID, Vector.AppID = appID,
       Vector.Language = [], Vector.Rating = 0, Vector.Country = [],
       Vector.Model = ''text-embedding-3-small'', Dim = 1536,
       ContentVec = contentVec, ResponseVec = []\<rparr>,
      w\<lparr>uuids := Suc (uuids w)\<rparr>)"

subsection \<open>Vectorize service\<close>

text \<open>The fields \<^verbatim>\<open>embedder\<close> and \<^verbatim>\<open>cfg\<close> of the receiver \<^verbatim>\<open>s\<close>.\<close>

record VectorizeService =
  s_embedder :: Embedder
  s_cfg :: Config

definition NewVectorizeService :: "Config \<Rightarrow> VectorizeService" where
  "NewVectorizeService cfg =
     (let embedder =
        (if APIKey (OpenAI cfg) \<noteq> [] then
           (case NewOpenAIClient \<lparr>APIKey = APIKey (OpenAI cfg), BaseURL = BaseURL (OpenAI cfg),
                                   OpenAIConfig.Model = OpenAIConfig.Model (OpenAI cfg),
                                   MaxRetries = MaxRetries (OpenAI cfg),
                                   Timeout = Timeout (OpenAI cfg)\<rparr> of
              Inl err \<Rightarrow> StubEmbedder (MaxVectorLength (Vectorizer cfg))
            | Inr openAIClient \<Rightarrow> OpenAIEmbedder openAIClient)
         else StubEmbedder (MaxVectorLength (Vectorizer cfg)))
      in \<lparr>s_embedder = embedder, s_cfg = cfg\<rparr>)"

definition empty_result :: VectorizeResult where
  "empty_result = \<lparr>Processed = 0, Skipped = 0, Failed = 0, ReviewIDs = []\<rparr>"

text \<open>The four additive updates made after a page and after a sub-batch.\<close>

definition add_result :: "VectorizeResult \<Rightarrow> VectorizeResult \<Rightarrow> VectorizeResult" where
  "add_result result batchResult =
     \<lparr>Processed = Processed result + Processed batchResult,
      Skipped = Skipped result + Skipped batchResult,
      Failed = Failed result + Failed batchResult,
      ReviewIDs = ReviewIDs result @ ReviewIDs batchResult\<rparr>"

definition determineBatchSize :: "VectorizeService \<Rightarrow> int \<Rightarrow> nat" where
  "determineBatchSize s limit = (if limit > 0 then nat limit else BatchSize (Vectorizer (s_cfg s)))"

definition prepareTexts :: "CleanReview list \<Rightarrow> gostring list \<times> gostring list" where
  "prepareTexts reviews =
     (map ContentClean reviews,
      map (\<lambda>review. case ResponseContentClean review of
                       Some text \<Rightarrow> (if text \<noteq> [] then text else [])
                     | None \<Rightarrow> []) reviews)"

definition filterNonEmptyResponses :: "gostring list \<Rightarrow> gostring list" where
  "filterNonEmptyResponses responseTexts = filter (\<lambda>text. text \<noteq> []) responseTexts"

definition generateEmbeddings ::
  "('d, 'f) env \<Rightarrow> VectorizeService \<Rightarrow> gostring list \<Rightarrow> gostring list \<Rightarrow> 'f world
     \<Rightarrow> (('f list list \<times> 'f list list) \<times> error option) outcome \<times> 'f world" where
  "generateEmbeddings env s contentTexts responseTexts w =
     (case EmbedBatch env (s_embedder s) contentTexts w of
        (Panic p, w1) \<Rightarrow> (Panic p, w1)
      | (Return (contentVectors, Some err), w1) \<Rightarrow>
          (Return (([], []), Some (Wrapf ''failed to generate content embeddings: %w'' [] err)), w1)
      | (Return (contentVectors, None), w1) \<Rightarrow>
          (let nonEmptyResponses = filterNonEmptyResponses responseTexts in
           if length nonEmptyResponses > 0 then
             (case EmbedBatch env (s_embedder s) nonEmptyResponses w1 of
                (Panic p, w2) \<Rightarrow> (Panic p, w2)
              | (Return (responseVectors, Some err), w2) \<Rightarrow> (Return ((contentVectors, []), None), w2)
              | (Return (responseVectors, None), w2) \<Rightarrow>
                  (Return ((contentVectors, responseVectors), None), w2))
           else (Return ((contentVectors, []), None), w1)))"

definition createVector ::
  "('d, 'f) env \<Rightarrow> VectorizeService \<Rightarrow> CleanReview \<Rightarrow> 'f list \<Rightarrow> 'f list list \<Rightarrow> nat \<Rightarrow> 'f world
     \<Rightarrow> 'f Vector \<times> 'f world" where
  "createVector env s review contentVec responseVectors index w =
     (let (vector, w1) = NewVector env (ID review) (CleanReview.AppID review) contentVec w;
          vector = vector\<lparr>Vector.Language := CleanReview.Language review,
                          Vector.Rating := CleanReview.Rating review,
                          Vector.Country := CleanReview.Country review,
                          Vector.Model := VectorizerConfig.Model (Vectorizer (s_cfg s)),
                          Dim := MaxVectorLength (Vectorizer (s_cfg s))\<rparr>;
          vector = (if responseVectors \<noteq> [] \<and> index < length responseVectors
                    then vector\<lparr>ResponseVec := responseVectors ! index\<rparr> else vector)
      in (vector, w1))"

text \<open>
  \<^verbatim>\<open>storeVectors\<close>: \<open>i\<close> is the index of the range loop. Reading
  \<^verbatim>\<open>contentVectors[i]\<close> past the end of the slice panics.
\<close>

fun storeVectors_loop ::
  "('d, 'f) env \<Rightarrow> VectorizeService \<Rightarrow> 'f list list \<Rightarrow> 'f list list \<Rightarrow> nat \<Rightarrow> CleanReview list
     \<Rightarrow> VectorizeResult \<Rightarrow> 'f world \<Rightarrow> VectorizeResult outcome \<times> 'f world" where
  "storeVectors_loop env s contentVectors responseVectors i [] result w = (Return result, w)"
| "storeVectors_loop env s contentVectors responseVectors i (review # reviews) result w =
     (if i < length contentVectors then
        (let (vector, w1) = createVector env s review (contentVectors ! i) responseVectors i w;
             (err, w2) = UpsertEmbedding env vector w1;
             result1 = (case err of
                          Some err \<Rightarrow> result\<lparr>Failed := Failed result + 1\<rparr>
                        | None \<Rightarrow> result\<lparr>Processed := Processed result + 1,
                                          ReviewIDs := ReviewIDs result @ [ID review]\<rparr>)
         in storeVectors_loop env s contentVectors responseVectors (i + 1) reviews result1 w2)
      else (Panic ''index out of range'', w))"

definition storeVectors ::
  "('d, 'f) env \<Rightarrow> VectorizeService \<Rightarrow> CleanReview list \<Rightarrow> 'f list list \<Rightarrow> 'f list list \<Rightarrow> 'f world
     \<Rightarrow> VectorizeResult outcome \<times> 'f world" where
  "storeVectors env s reviews contentVectors responseVectors w =
     storeVectors_loop env s contentVectors responseVectors 0 reviews empty_result w"

definition processBatch ::
  "('d, 'f) env \<Rightarrow> VectorizeService \<Rightarrow> CleanReview list \<Rightarrow> 'f world
     \<Rightarrow> (VectorizeResult \<times> error option) outcome \<times> 'f world" where
  "processBatch env s reviews w =
     (if length reviews = 0 then (Return (empty_result, None), w)
      else
        (let (contentTexts, responseTexts) = prepareTexts reviews in
         if length contentTexts = 0 then (Return (empty_result, None), w)
         else
           (case generateEmbeddings env s contentTexts responseTexts w of
              (Panic p, w1) \<Rightarrow> (Panic p, w1)
            | (Return (vectors, Some err), w1) \<Rightarrow> (Return (empty_result, Some err), w1)
            | (Return ((contentVectors, responseVectors), None), w1) \<Rightarrow>
                (case storeVectors env s reviews contentVectors responseVectors w1 of
                   (Panic p, w2) \<Rightarrow> (Panic p, w2)
                 | (Return result, w2) \<Rightarrow> (Return (result, None), w2)))))"

text \<open>
  The sub-batch loop of \<^verbatim>\<open>processReviewsInBatches\<close>,
  \<^verbatim>\<open>for i := 0; i < len(reviews); i += batchSize\<close>, with the method it calls on every
  sub-batch as the argument \<open>pb\<close>. With \<open>batchSize = 0\<close> the index never advances and the
  loop does not return, which is the value \<open>None\<close>.
\<close>

partial_function (option) processReviewsInBatches_loop ::
  "('r list \<Rightarrow> 'w \<Rightarrow> (VectorizeResult \<times> error option) outcome \<times> 'w) \<Rightarrow> nat \<Rightarrow> 'r list \<Rightarrow> nat
     \<Rightarrow> VectorizeResult \<Rightarrow> 'w \<Rightarrow> (VectorizeResult outcome \<times> 'w) option" where
  "processReviewsInBatches_loop pb batchSize reviews i result w =
     (if i < length reviews then
        (let end = min (i + batchSize) (length reviews);
             batch = slice reviews i end
         in case pb batch w of
              (Panic p, w1) \<Rightarrow> Some (Panic p, w1)
            | (Return (batchResult, Some err), w1) \<Rightarrow>
                processReviewsInBatches_loop pb batchSize reviews (i + batchSize)
                  (result\<lparr>Failed := Failed result + length batch\<rparr>) w1
            | (Return (batchResult, None), w1) \<Rightarrow>
                processReviewsInBatches_loop pb batchSize reviews (i + batchSize)
                  (add_result result batchResult) w1)
      else Some (Return result, w))"

declare processReviewsInBatches_loop.simps [code]

definition processReviewsInBatches ::
  "('d, 'f) env \<Rightarrow> VectorizeService \<Rightarrow> CleanReview list \<Rightarrow> 'f world
     \<Rightarrow> (VectorizeResult outcome \<times> 'f world) option" where
  "processReviewsInBatches env s reviews w =
     processReviewsInBatches_loop (processBatch env s) (BatchSize (Vectorizer (s_cfg s))) reviews 0
       empty_result w"

text \<open>
  The page loop of \<^verbatim>\<open>processAllReviews\<close>. The context is polled after a full page
  has been processed; \<^verbatim>\<open>ctx.Err()\<close> is then \<^verbatim>\<open>context.Canceled\<close>.
\<close>

definition Canceled :: error where
  "Canceled = Errorf ''context canceled''"

partial_function (option) processAllReviews_loop ::
  "('d, 'f) env \<Rightarrow> VectorizeService \<Rightarrow> CleanReviewFilters \<Rightarrow> nat \<Rightarrow> nat \<Rightarrow> VectorizeResult \<Rightarrow> 'f world
     \<Rightarrow> ((VectorizeResult \<times> error option) outcome \<times> 'f world) option" where
  "processAllReviews_loop env s filters batchSize offset result w =
     (case GetCleanReviewsForVectorization env filters batchSize offset w of
        ((reviews, Some err), w1) \<Rightarrow>
          Some (Return (result, Some (Wrapf ''failed to fetch reviews batch at offset %d: %w'' [Num offset] err)), w1)
      | ((reviews, None), w1) \<Rightarrow>
          if length reviews = 0 then Some (Return (result, None), w1)
          else
            (case processReviewsInBatches env s reviews w1 of
               None \<Rightarrow> None
             | Some (Panic p, w2) \<Rightarrow> Some (Panic p, w2)
             | Some (Return batchResult, w2) \<Rightarrow>
                 (let result1 = add_result result batchResult in
                  if length reviews < batchSize then Some (Return (result1, None), w2)
                  else if ctx_done env (length (queries w2)) then Some (Return (result1, Some Canceled), w2)
                  else processAllReviews_loop env s filters batchSize (offset + batchSize) result1 w2)))"

declare processAllReviews_loop.simps [code]

definition processAllReviews ::
  "('d, 'f) env \<Rightarrow> VectorizeService \<Rightarrow> VectorizeRequest \<Rightarrow> nat \<Rightarrow> 'f world
     \<Rightarrow> ((VectorizeResult \<times> error option) outcome \<times> 'f world) option" where
  "processAllReviews env s req batchSize w =
     (let filters = \<lparr>ForceRecompute = ForceRecompute req, FilterAppID = FilterAppID req,
                     Countries = Countries req, Languages = Languages req,
                     DateFrom = DateFrom req, DateTo = DateTo req\<rparr>
      in processAllReviews_loop env s filters batchSize 0 empty_result w)"

definition RunOnce ::
  "('d, 'f) env \<Rightarrow> VectorizeService \<Rightarrow> VectorizeRequest \<Rightarrow> 'f world
     \<Rightarrow> ((VectorizeResult \<times> error option) outcome \<times> 'f world) option" where
  "RunOnce env s req w =
     (let batchSize = determineBatchSize s (Limit req) in
      case processAllReviews env s req batchSize w of
        None \<Rightarrow> None
      | Some (Panic p, w1) \<Rightarrow> Some (Panic p, w1)
      | Some (Return (result, Some err), w1) \<Rightarrow>
          Some (Return (empty_result, Some (Wrapf ''failed to process reviews: %w'' [] err)), w1)
      | Some (Return (result, None), w1) \<Rightarrow> Some (Return (result, None), w1))"

subsection \<open>Auxiliary notions for the statements\<close>

text \<open>
  \<open>sends S w w1\<close>: from \<open>w\<close> to \<open>w1\<close> only provider requests were added, and
  every text in them is in \<open>S\<close>. \<open>store_unchanged w w1\<close>: the database side of the world
  is the same.
\<close>

definition sends :: "gostring set \<Rightarrow> 'f world \<Rightarrow> 'f world \<Rightarrow> bool" where
  "sends S w w1 \<longleftrightarrow>
     (\<exists>new. w1 = w\<lparr>requests := requests w @ new\<rparr> \<and> (\<forall>r\<in>set new. set (Input r) \<subseteq> S))"

definition store_unchanged :: "'f world \<Rightarrow> 'f world \<Rightarrow> bool" where
  "store_unchanged w w1 \<longleftrightarrow>
     queries w1 = queries w \<and> execs w1 = execs w \<and> uuids w1 = uuids w
     \<and> review_embeddings w1 = review_embeddings w"

text \<open>
  \<open>store_grows w w1\<close>: from \<open>w\<close> to \<open>w1\<close> no page query was issued, the table
  \<^verbatim>\<open>review_embeddings\<close> only gained rows at its end, and review identities that were
  pairwise distinct still are.
\<close>

definition store_grows :: "'f world \<Rightarrow> 'f world \<Rightarrow> bool" where
  "store_grows w w1 \<longleftrightarrow>
     queries w1 = queries w
     \<and> (\<exists>rows. review_embeddings w1 = review_embeddings w @ rows)
     \<and> (distinct (map re_review_id (review_embeddings w))
          \<longrightarrow> distinct (map re_review_id (review_embeddings w1)))"

text \<open>
  \<open>sub_batches B reviews\<close> are the \<open>\<lceil>N / B\<rceil>\<close> contiguous slices of \<open>B\<close>
  records (the last one may be shorter) of a page of \<open>N\<close> records.
  \<open>run_batches pb batches result w\<close> calls the method \<open>pb\<close> on the given sub-batches
  one after the other and adds up their results as the sub-batch loop does; a panic of
  \<open>pb\<close> ends it. \<open>logged pb\<close> is \<open>pb\<close> with a log, kept beside the world, of the
  sub-batches it has been called on.
\<close>

definition sub_batches :: "nat \<Rightarrow> 'r list \<Rightarrow> 'r list list" where
  "sub_batches B reviews =
     map (\<lambda>k. slice reviews (k * B) (min (k * B + B) (length reviews)))
       [0..<(length reviews + B - 1) div B]"

fun run_batches ::
  "('r list \<Rightarrow> 'w \<Rightarrow> (VectorizeResult \<times> error option) outcome \<times> 'w) \<Rightarrow> 'r list list
     \<Rightarrow> VectorizeResult \<Rightarrow> 'w \<Rightarrow> VectorizeResult outcome \<times> 'w" where
  "run_batches pb [] result w = (Return result, w)"
| "run_batches pb (batch # batches) result w =
     (case pb batch w of
        (Panic p, w1) \<Rightarrow> (Panic p, w1)
      | (Return (batchResult, Some err), w1) \<Rightarrow>
          run_batches pb batches (result\<lparr>Failed := Failed result + length batch\<rparr>) w1
      | (Return (batchResult, None), w1) \<Rightarrow>
          run_batches pb batches (add_result result batchResult) w1)"

definition logged ::
  "('r list \<Rightarrow> 'w \<Rightarrow> 'o \<times> 'w) \<Rightarrow> 'r list \<Rightarrow> 'r list list \<times> 'w \<Rightarrow> 'o \<times> 'r list list \<times> 'w" where
  "logged pb batch lw = (case pb batch (snd lw) of (out, w1) \<Rightarrow> (out, (fst lw @ [batch], w1)))"

text \<open>
  \<open>chunks_done env cfg texts w0 c\<close> follows the chunk loop of
  \<^verbatim>\<open>CreateEmbeddings\<close> from the world \<open>w0\<close> through its first \<open>c\<close> chunks when
  the call for each of them succeeds; it gives the vectors collected so far and the world
  after these calls, and \<open>None\<close> if there are fewer chunks or one of the calls fails.
\<close>

fun chunks_done ::
  "('d, 'f) env \<Rightarrow> OpenAIConfig \<Rightarrow> gostring list \<Rightarrow> 'f world \<Rightarrow> nat
     \<Rightarrow> ('f list list \<times> 'f world) option" where
  "chunks_done env cfg texts w0 0 = Some ([], w0)"
| "chunks_done env cfg texts w0 (Suc c) =
     (case chunks_done env cfg texts w0 c of
        None \<Rightarrow> None
      | Some (allVectors, w) \<Rightarrow>
          if c * 10 < length texts then
            (case OpenAIClient_processBatch env cfg
                    (slice texts (c * 10) (if c * 10 + 10 > length texts then length texts else c * 10 + 10)) w of
               (Return (vectors, None), w1) \<Rightarrow> Some (allVectors @ vectors, w1)
             | (Return (vectors, Some err), w1) \<Rightarrow> None
             | (Panic p, w1) \<Rightarrow> None)
          else None)"

text \<open>
  \<open>pages_done env s filters batchSize w0 k\<close> follows the page loop from the world \<open>w0\<close>
  through \<open>k\<close> iterations that all go on to a next page: each page is fetched without an
  error, is full, is processed without a panic, and the context is not cancelled after it. It
  gives the result accumulated over these pages and the world after them, and \<open>None\<close> if the
  loop ends or fails within the first \<open>k\<close> pages.
\<close>

fun pages_done ::
  "('d, 'f) env \<Rightarrow> VectorizeService \<Rightarrow> CleanReviewFilters \<Rightarrow> nat \<Rightarrow> 'f world \<Rightarrow> nat
     \<Rightarrow> (VectorizeResult \<times> 'f world) option" where
  "pages_done env s filters batchSize w0 0 = Some (empty_result, w0)"
| "pages_done env s filters batchSize w0 (Suc k) =
     (case pages_done env s filters batchSize w0 k of
        None \<Rightarrow> None
      | Some (result, w) \<Rightarrow>
          (case GetCleanReviewsForVectorization env filters batchSize (k * batchSize) w of
             ((reviews, Some err), w1) \<Rightarrow> None
           | ((reviews, None), w1) \<Rightarrow>
               if length reviews = 0 then None
               else
                 (case processReviewsInBatches env s reviews w1 of
                    None \<Rightarrow> None
                  | Some (Panic p, w2) \<Rightarrow> None
                  | Some (Return batchResult, w2) \<Rightarrow>
                      if length reviews < batchSize \<or> ctx_done env (length (queries w2)) then None
                      else Some (add_result result batchResult, w2))))"

subsection \<open>Concrete values for the examples\<close>

text \<open>
  \<open>demo_env faults cancelled rows\<close> is an environment whose provider answers every text
  with the text's own code points as its vector, unless \<open>faults\<close> scripts the k-th request
  to fail; its database never fails, holds \<open>rows\<close> as the source table and applies no
  optional filter; \<open>cancelled\<close> tells when the context is cancelled. The other values are an
  empty world, a configuration with \<open>MaxRetries = 2\<close>, a batch size of 2 and a dimension of
  2, and a few reviews, rows and vectors; \<open>demo_reviews n\<close> are \<open>n\<close> reviews with the
  identifiers \<open>r\<close>, \<open>rr\<close>, \<open>rrr\<close> and so on. \<open>ascii\<close> turns a literal into code
  points.
\<close>

definition ascii :: "string \<Rightarrow> gostring" where
  "ascii s = map of_char s"

definition demo_env ::
  "(nat \<Rightarrow> error option) \<Rightarrow> (nat \<Rightarrow> bool) \<Rightarrow> clean_reviews_row list \<Rightarrow> (int, int) env" where
  "demo_env faults cancelled rows =
     \<lparr>respond = (\<lambda>k req. case faults k of
                   Some err \<Rightarrow> Inl err
                 | None \<Rightarrow> Inr \<lparr>Data = map (\<lambda>(i, t). \<lparr>Embedding = t, Index = int i\<rparr>) (enumerate 0 (Input req))\<rparr>),
      float32 = (\<lambda>val. val),
      rand_value = (\<lambda>k. int k),
      clean_reviews = rows,
      matches = (\<lambda>filters cr. True),
      query_fault = (\<lambda>k. None),
      exec_fault = (\<lambda>k. None),
      uuid = (\<lambda>k. replicate (Suc k) CHR ''u''),
      ctx_done = cancelled\<rparr>"

definition demo_world :: "int world" where
  "demo_world = \<lparr>requests = [], draws = 0, queries = [], execs = 0, uuids = 0, review_embeddings = []\<rparr>"

definition demo_openai :: OpenAIConfig where
  "demo_openai = \<lparr>APIKey = ''key'', BaseURL = [], OpenAIConfig.Model = ''text-embedding-3-small'',
                   MaxRetries = 2, Timeout = 30 * Second\<rparr>"

definition demo_config :: Config where
  "demo_config = \<lparr>OpenAI = demo_openai,
                   Vectorizer = \<lparr>BatchSize = 2, VectorizerConfig.Model = ''text-embedding-3-small'',
                                  MaxVectorLength = 2\<rparr>\<rparr>"

definition demo_service :: "Embedder \<Rightarrow> VectorizeService" where
  "demo_service e = \<lparr>s_embedder = e, s_cfg = demo_config\<rparr>"

definition demo_review :: "string \<Rightarrow> string \<Rightarrow> string option \<Rightarrow> CleanReview" where
  "demo_review i content response =
     \<lparr>ID = i, CleanReview.AppID = ''app'', CleanReview.Country = ''US'', CleanReview.Rating = 5,
      CleanReview.Language = ''en'', ContentClean = ascii content, ContentEN = None,
      ResponseContentClean = map_option ascii response\<rparr>"

definition demo_reviews :: "nat \<Rightarrow> CleanReview list" where
  "demo_reviews n = map (\<lambda>k. demo_review (replicate (Suc k) CHR ''r'') ''good app'' None) [0..<n]"

definition demo_row :: "string \<Rightarrow> int \<Rightarrow> string \<Rightarrow> string option \<Rightarrow> clean_reviews_row" where
  "demo_row i reviewed content response =
     \<lparr>cr_id = i, cr_app_id = ''app'', cr_country = ''US'', cr_rating = 5, cr_language = ''en'',
      cr_content_clean = Some (ascii content), cr_content_en = None,
      cr_response_content_clean = map_option ascii response,
      cr_is_contentful = True, cr_reviewed_at = reviewed\<rparr>"

definition demo_request :: "bool \<Rightarrow> int \<Rightarrow> VectorizeRequest" where
  "demo_request force limit =
     \<lparr>ForceRecompute = force, FilterAppID = [], Countries = [], Languages = [],
      DateFrom = [], DateTo = [], Limit = limit\<rparr>"

definition demo_rows :: "clean_reviews_row list" where
  "demo_rows = [demo_row ''r1'' 50 ''good app'' None, demo_row ''r2'' 40 ''bad app'' (Some ''thanks''),
                demo_row ''r3'' 30 ''fine app'' None, demo_row ''r4'' 20 ''nice app'' None,
                demo_row ''r5'' 10 ''slow app'' None]"

definition demo_stored :: "int review_embeddings_row" where
  "demo_stored =
     \<lparr>re_embedding_id = ''e0'', re_review_id = ''r1'', re_app_id = ''app'', re_language = ''en'',
      re_rating = 5, re_country = ''US'', re_model = ''text-embedding-3-small'', re_dim = 2,
      re_content_vec = [7, 7], re_response_vec = None\<rparr>"

definition demo_vector :: "int Vector" where
  "demo_vector =
     \<lparr>EmbeddingID = ''e1'', ReviewID = ''r1'', Vector.AppID = ''app'', Vector.Language = ''en'',
      Vector.Rating = 5, Vector.Country = ''US'', Vector.Model = ''text-embedding-3-small'',
      Dim = 2, ContentVec = [1, 2], ResponseVec = [3, 4]\<rparr>"

definition demo_filters :: "bool \<Rightarrow> CleanReviewFilters" where
  "demo_filters force =
     \<lparr>ForceRecompute = force, FilterAppID = [], Countries = [], Languages = [],
      DateFrom = [], DateTo = []\<rparr>"

section \<open>Properties of the model\<close>

subsection \<open>The text preprocessor\<close>

lemma IsSpace_32: "IsSpace 0x20"
  by (simp add: IsSpace_def)

lemma go_len_Nil: "go_len [] = 0"
  by (simp add: go_len_def)

lemma utf8_len_pos: "0 < utf8_len r"
  by (simp add: utf8_len_def)

lemma fields_from_no_space:
  "\<forall>r\<in>set cur. \<not> IsSpace r \<Longrightarrow> \<forall>e\<in>set (fields_from cur s). e \<noteq> [] \<and> (\<forall>r\<in>set e. \<not> IsSpace r)"
proof (induction s arbitrary: cur)
  case Nil
  then show ?case by simp
next
  case (Cons a s)
  have nil: "\<forall>e\<in>set (fields_from [] s). e \<noteq> [] \<and> (\<forall>r\<in>set e. \<not> IsSpace r)"
    using Cons.IH [of "[]"] by simp
  show ?case
  proof (cases "IsSpace a")
    case True
    with nil Cons.prems show ?thesis by simp
  next
    case False
    with Cons.prems have "\<forall>r\<in>set (cur @ [a]). \<not> IsSpace r" by simp
    from Cons.IH [OF this] False show ?thesis by simp
  qed
qed

lemma Fields_no_space: "e \<in> set (Fields s) \<Longrightarrow> e \<noteq> [] \<and> (\<forall>r\<in>set e. \<not> IsSpace r)"
  unfolding Fields_def using fields_from_no_space [of "[]" s] by simp

lemma fields_from_append:
  "\<forall>r\<in>set e. \<not> IsSpace r \<Longrightarrow> fields_from cur (e @ rest) = fields_from (cur @ e) rest"
  by (induction e arbitrary: cur) auto

lemma Fields_Join:
  "\<forall>e\<in>set es. e \<noteq> [] \<and> (\<forall>r\<in>set e. \<not> IsSpace r) \<Longrightarrow> Fields (Join es [0x20]) = es"
proof (induction es rule: induct_list012)
  case 1
  show ?case by (simp add: Fields_def)
next
  case (2 e)
  then show ?case using fields_from_append [of e "[]" "[]"] by (simp add: Fields_def)
next
  case (3 e e' es)
  have "Fields (Join (e # e' # es) [0x20]) = fields_from e (0x20 # Join (e' # es) [0x20])"
    using 3(3) fields_from_append [of e "[]" "0x20 # Join (e' # es) [0x20]"] by (simp add: Fields_def)
  also have "\<dots> = e # Fields (Join (e' # es) [0x20])"
    using 3(3) IsSpace_32 by (simp add: Fields_def)
  finally show ?case using 3 by simp
qed

lemma fields_from_all_space: "\<forall>r\<in>set s. IsSpace r \<Longrightarrow> fields_from [] s = []"
  by (induction s) auto

lemma Join_hd_last:
  "es \<noteq> [] \<Longrightarrow> \<forall>e\<in>set es. e \<noteq> [] \<Longrightarrow>
     Join es sep \<noteq> [] \<and> hd (Join es sep) = hd (hd es) \<and> last (Join es sep) = last (last es)"
  by (induction es rule: induct_list012) auto

lemma TrimSpace_Join:
  assumes "\<forall>e\<in>set es. e \<noteq> [] \<and> (\<forall>r\<in>set e. \<not> IsSpace r)"
  shows "TrimSpace (Join es sep) = Join es sep"
proof (cases "es = []")
  case True
  then show ?thesis by (simp add: TrimSpace_def)
next
  case False
  let ?j = "Join es sep"
  from False assms have j: "?j \<noteq> []" "hd ?j = hd (hd es)" "last ?j = last (last es)"
    using Join_hd_last [of es sep] by auto
  from False assms have "hd es \<in> set es" "last es \<in> set es" by auto
  with assms have "\<not> IsSpace (hd (hd es))" "\<not> IsSpace (last (last es))"
    by (metis hd_in_set, metis last_in_set)
  with j have a: "\<not> IsSpace (hd ?j)" and b: "\<not> IsSpace (last ?j)" by simp_all
  from j a have "dropWhile IsSpace ?j = ?j" by (cases ?j) auto
  moreover from j b have "dropWhile IsSpace (rev ?j) = rev ?j"
    by (cases "rev ?j") (auto simp: hd_rev [symmetric] simp del: hd_rev)
  ultimately show ?thesis by (simp add: TrimSpace_def)
qed

lemma preprocessText_idem: "preprocessText (preprocessText x) = preprocessText x"
proof -
  let ?es = "Fields (TrimSpace x)"
  let ?j = "Join ?es [0x20]"
  have ok: "\<forall>e\<in>set ?es. e \<noteq> [] \<and> (\<forall>r\<in>set e. \<not> IsSpace r)"
    using Fields_no_space by blast
  show ?thesis
  proof (cases "go_len ?j < 3")
    case True
    then have "preprocessText x = []" by (simp add: preprocessText_def Let_def)
    then show ?thesis
      by (simp add: preprocessText_def Let_def TrimSpace_def Fields_def go_len_def)
  next
    case False
    then have p: "preprocessText x = ?j" by (simp add: preprocessText_def Let_def)
    have "TrimSpace ?j = ?j" using ok by (rule TrimSpace_Join)
    moreover have "Fields ?j = ?es" using ok by (rule Fields_Join)
    ultimately have "preprocessText ?j = ?j" using False by (simp add: preprocessText_def Let_def)
    with p show ?thesis by simp
  qed
qed

lemma preprocessText_empty_iff:
  "preprocessText x = [] \<longleftrightarrow> go_len (Join (Fields (TrimSpace x)) [0x20]) < 3"
  by (auto simp: preprocessText_def Let_def go_len_def)

lemma preprocessText_go_len: "preprocessText x \<noteq> [] \<Longrightarrow> 3 \<le> go_len (preprocessText x)"
  by (auto simp: preprocessText_def Let_def split: if_splits)

lemma preprocessText_all_space: "\<forall>r\<in>set x. IsSpace r \<Longrightarrow> preprocessText x = []"
proof -
  assume a: "\<forall>r\<in>set x. IsSpace r"
  then have "TrimSpace x = []" by (auto simp: TrimSpace_def dest: set_dropWhileD)
  then show ?thesis by (simp add: preprocessText_def Let_def Fields_def go_len_def)
qed

subsection \<open>The OpenAI client and the providers\<close>

declare retry_loop.simps [simp del] CreateEmbeddings_loop.simps [simp del]

lemma sends_refl: "sends S w w"
  unfolding sends_def by (rule exI [of _ "[]"]) simp

lemma sends_trans: "sends S w w1 \<Longrightarrow> sends S w1 w2 \<Longrightarrow> sends S w w2"
  unfolding sends_def
proof -
  assume "\<exists>new. w1 = w\<lparr>requests := requests w @ new\<rparr> \<and> (\<forall>r\<in>set new. set (Input r) \<subseteq> S)"
    and "\<exists>new. w2 = w1\<lparr>requests := requests w1 @ new\<rparr> \<and> (\<forall>r\<in>set new. set (Input r) \<subseteq> S)"
  then obtain n1 n2 where 1: "w1 = w\<lparr>requests := requests w @ n1\<rparr>" "\<forall>r\<in>set n1. set (Input r) \<subseteq> S"
    and 2: "w2 = w1\<lparr>requests := requests w1 @ n2\<rparr>" "\<forall>r\<in>set n2. set (Input r) \<subseteq> S" by blast
  from 1 2 have "w2 = w\<lparr>requests := requests w @ (n1 @ n2)\<rparr>" by simp
  moreover from 1 2 have "\<forall>r\<in>set (n1 @ n2). set (Input r) \<subseteq> S" by auto
  ultimately show "\<exists>new. w2 = w\<lparr>requests := requests w @ new\<rparr> \<and> (\<forall>r\<in>set new. set (Input r) \<subseteq> S)"
    by blast
qed

lemma sends_mono: "sends S w w1 \<Longrightarrow> S \<subseteq> T \<Longrightarrow> sends T w w1"
  unfolding sends_def by blast

lemma sends_store_unchanged: "sends S w w1 \<Longrightarrow> store_unchanged w w1"
  unfolding sends_def store_unchanged_def by auto

lemma store_unchanged_refl: "store_unchanged w w"
  by (simp add: store_unchanged_def)

lemma store_unchanged_trans: "store_unchanged w w1 \<Longrightarrow> store_unchanged w1 w2 \<Longrightarrow> store_unchanged w w2"
  by (simp add: store_unchanged_def)

text \<open>The retry loop.\<close>

lemma retry_loop_world:
  "\<exists>k. k \<le> Suc maxRetries - attempt \<and>
       snd (retry_loop env maxRetries req attempt prev w) = w\<lparr>requests := requests w @ replicate k req\<rparr>"
proof (induction env maxRetries req attempt prev w rule: retry_loop.induct)
  case (1 env maxRetries req attempt prev w)
  show ?case
  proof (cases "attempt \<le> maxRetries")
    case False
    then show ?thesis
      by (subst retry_loop.simps) (auto intro: exI [of _ 0])
  next
    case True
    show ?thesis
    proof (cases "respond env (length (requests w)) req")
      case (Inr resp)
      with True have "snd (retry_loop env maxRetries req attempt prev w) = w\<lparr>requests := requests w @ replicate 1 req\<rparr>"
        by (subst retry_loop.simps) (simp add: makeRequest_def)
      with True show ?thesis by (intro exI [of _ 1]) simp
    next
      case (Inl err)
      let ?w1 = "w\<lparr>requests := requests w @ [req]\<rparr>"
      from True Inl have step: "retry_loop env maxRetries req attempt prev w
          = retry_loop env maxRetries req (attempt + 1) (Some (Inl err)) ?w1"
        by (subst retry_loop.simps) (simp add: makeRequest_def)
      have "\<exists>k. k \<le> Suc maxRetries - (attempt + 1) \<and>
          snd (retry_loop env maxRetries req (attempt + 1) (Some (Inl err)) ?w1)
            = ?w1\<lparr>requests := requests ?w1 @ replicate k req\<rparr>"
        by (rule "1.IH" [OF True]) (simp_all add: makeRequest_def Inl)
      then obtain k where k: "k \<le> Suc maxRetries - (attempt + 1)"
        "snd (retry_loop env maxRetries req (attempt + 1) (Some (Inl err)) ?w1)
           = ?w1\<lparr>requests := requests ?w1 @ replicate k req\<rparr>"
        by blast
      from k True step show ?thesis
        by (intro exI [of _ "Suc k"]) (simp add: replicate_append_same)
    qed
  qed
qed

lemma retry_loop_all_fail:
  assumes "\<And>j. j \<le> maxRetries - attempt \<Longrightarrow> respond env (length (requests w) + j) req = Inl (fail (attempt + j))"
    and "attempt \<le> maxRetries"
  shows "retry_loop env maxRetries req attempt prev w
          = (Some (Inl (fail maxRetries)), w\<lparr>requests := requests w @ replicate (Suc (maxRetries - attempt)) req\<rparr>)"
  using assms
proof (induction "maxRetries - attempt" arbitrary: attempt prev w)
  case 0
  then have a: "attempt = maxRetries" by simp
  from "0.prems"(1) [of 0] a have r: "respond env (length (requests w)) req = Inl (fail maxRetries)" by simp
  show ?case
    by (subst retry_loop.simps, simp add: a makeRequest_def r, subst retry_loop.simps, simp)
next
  case (Suc d)
  then have lt: "attempt < maxRetries" by simp
  let ?w1 = "w\<lparr>requests := requests w @ [req]\<rparr>"
  from Suc.prems(1) [of 0] have r: "respond env (length (requests w)) req = Inl (fail attempt)" by simp
  have step: "retry_loop env maxRetries req attempt prev w
      = retry_loop env maxRetries req (attempt + 1) (Some (Inl (fail attempt))) ?w1"
    using lt by (subst retry_loop.simps) (simp add: makeRequest_def r)
  have d: "d = maxRetries - (attempt + 1)" using Suc.hyps(2) by simp
  have hyp: "respond env (length (requests ?w1) + j) req = Inl (fail (attempt + 1 + j))"
    if "j \<le> maxRetries - (attempt + 1)" for j
  proof -
    from that lt have "Suc j \<le> maxRetries - attempt" by arith
    from Suc.prems(1) [OF this] show ?thesis by simp
  qed
  from Suc.hyps(1) [OF d hyp] lt
  have "retry_loop env maxRetries req (attempt + 1) (Some (Inl (fail attempt))) ?w1
      = (Some (Inl (fail maxRetries)), ?w1\<lparr>requests := requests ?w1 @ replicate (Suc (maxRetries - (attempt + 1))) req\<rparr>)"
    by simp
  with step lt show ?case
    by (simp add: replicate_append_same Suc_diff_Suc)
qed


lemma retry_loop_success:
  assumes "\<And>j. j < k \<Longrightarrow> isl (respond env (length (requests w) + j) req)"
    and "respond env (length (requests w) + k) req = Inr resp"
    and "attempt + k \<le> maxRetries"
  shows "retry_loop env maxRetries req attempt prev w
          = (Some (Inr resp), w\<lparr>requests := requests w @ replicate (Suc k) req\<rparr>)"
  using assms
proof (induction k arbitrary: attempt prev w)
  case 0
  then show ?case by (subst retry_loop.simps) (simp add: makeRequest_def)
next
  case (Suc k)
  let ?w1 = "w\<lparr>requests := requests w @ [req]\<rparr>"
  from Suc.prems(1) [of 0] obtain err where r: "respond env (length (requests w)) req = Inl err"
    by (cases "respond env (length (requests w)) req") auto
  have step: "retry_loop env maxRetries req attempt prev w
      = retry_loop env maxRetries req (attempt + 1) (Some (Inl err)) ?w1"
    using Suc.prems(3) by (subst retry_loop.simps) (simp add: makeRequest_def r)
  have h1: "isl (respond env (length (requests ?w1) + j) req)" if "j < k" for j
    using Suc.prems(1) [of "Suc j"] that by simp
  have h2: "respond env (length (requests ?w1) + k) req = Inr resp"
    using Suc.prems(2) by simp
  have h3: "attempt + 1 + k \<le> maxRetries" using Suc.prems(3) by simp
  from Suc.IH [OF h1 h2 h3] step show ?case
    by (simp add: replicate_append_same)
qed

text \<open>One call of the client, and the chunk loop.\<close>

lemma OpenAIClient_processBatch_world:
  "\<exists>k. k \<le> Suc (MaxRetries cfg) \<and>
       snd (OpenAIClient_processBatch env cfg texts w)
         = w\<lparr>requests := requests w @ replicate k \<lparr>Input = texts, EmbeddingRequest.Model = OpenAIConfig.Model cfg\<rparr>\<rparr>"
proof -
  let ?req = "\<lparr>Input = texts, EmbeddingRequest.Model = OpenAIConfig.Model cfg\<rparr>"
  from retry_loop_world [of "MaxRetries cfg" 0 env ?req None w]
  obtain k where k: "k \<le> Suc (MaxRetries cfg)"
    "snd (retry_loop env (MaxRetries cfg) ?req 0 None w) = w\<lparr>requests := requests w @ replicate k ?req\<rparr>"
    by auto
  have "snd (OpenAIClient_processBatch env cfg texts w) = snd (retry_loop env (MaxRetries cfg) ?req 0 None w)"
    by (simp add: OpenAIClient_processBatch_def Let_def split: prod.splits option.splits sum.splits)
  with k show ?thesis by auto
qed

lemma OpenAIClient_processBatch_sends:
  "sends (set texts) w (snd (OpenAIClient_processBatch env cfg texts w))"
proof -
  from OpenAIClient_processBatch_world [of cfg env texts w]
  obtain k where "snd (OpenAIClient_processBatch env cfg texts w)
         = w\<lparr>requests := requests w @ replicate k \<lparr>Input = texts, EmbeddingRequest.Model = OpenAIConfig.Model cfg\<rparr>\<rparr>"
    by blast
  then show ?thesis unfolding sends_def
    by (intro exI [of _ "replicate k \<lparr>Input = texts, EmbeddingRequest.Model = OpenAIConfig.Model cfg\<rparr>"]) simp
qed

lemma set_slice: "set (slice xs i j) \<subseteq> set xs"
  unfolding slice_def by (meson set_drop_subset set_take_subset subset_trans)

lemma CreateEmbeddings_loop_sends:
  "sends (set texts) w (snd (CreateEmbeddings_loop env cfg texts i allVectors w))"
proof (induction env cfg texts i allVectors w rule: CreateEmbeddings_loop.induct)
  case (1 env cfg texts i allVectors w)
  show ?case
  proof (cases "i < length texts")
    case False
    then show ?thesis by (subst CreateEmbeddings_loop.simps) (simp add: sends_refl)
  next
    case True
    define e where "e = (if i + 10 > length texts then length texts else i + 10)"
    define batch where "batch = slice texts i e"
    obtain out w1 where pb: "OpenAIClient_processBatch env cfg batch w = (out, w1)"
      by (cases "OpenAIClient_processBatch env cfg batch w")
    have s1: "sends (set texts) w w1"
      using OpenAIClient_processBatch_sends [of batch w env cfg] pb set_slice [of texts i e]
      by (auto simp: batch_def intro: sends_mono)
    show ?thesis
    proof (cases out)
      case (Panic p)
      with True pb s1 show ?thesis
        by (subst CreateEmbeddings_loop.simps) (simp add: Let_def e_def [symmetric] batch_def [symmetric])
    next
      case (Return r)
      obtain vectors err where r: "r = (vectors, err)" by (cases r)
      show ?thesis
      proof (cases err)
        case (Some er)
        with True pb s1 Return r show ?thesis
          by (subst CreateEmbeddings_loop.simps) (simp add: Let_def e_def [symmetric] batch_def [symmetric])
      next
        case None
        have pb': "(Return (vectors, None), w1) = OpenAIClient_processBatch env cfg batch w"
          using pb Return r None by simp
        have "sends (set texts) w1 (snd (CreateEmbeddings_loop env cfg texts (i + 10) (allVectors @ vectors) w1))"
          by (rule "1.IH" [OF True]) (use pb' in \<open>simp_all add: e_def batch_def\<close>)
        with s1 have "sends (set texts) w (snd (CreateEmbeddings_loop env cfg texts (i + 10) (allVectors @ vectors) w1))"
          by (rule sends_trans)
        with True pb Return r None show ?thesis
          by (subst CreateEmbeddings_loop.simps) (simp add: Let_def e_def [symmetric] batch_def [symmetric])
      qed
    qed
  qed
qed

lemma CreateEmbeddings_sends: "sends (set texts) w (snd (CreateEmbeddings env cfg texts w))"
  by (simp add: CreateEmbeddings_def sends_refl CreateEmbeddings_loop_sends)

lemma OpenAIEmbedder_EmbedBatch_sends:
  "sends {t \<in> preprocessText ` set inputs. t \<noteq> []} w (snd (OpenAIEmbedder_EmbedBatch env cfg inputs w))"
proof -
  let ?p = "filter (\<lambda>processed. processed \<noteq> []) (map preprocessText inputs)"
  have set: "set ?p = {t \<in> preprocessText ` set inputs. t \<noteq> []}" by auto
  obtain out w1 where c: "CreateEmbeddings env cfg ?p w = (out, w1)"
    by (cases "CreateEmbeddings env cfg ?p w")
  have "snd (OpenAIEmbedder_EmbedBatch env cfg inputs w) = w
      \<or> snd (OpenAIEmbedder_EmbedBatch env cfg inputs w) = w1"
  proof (cases out)
    case (Panic p)
    with c show ?thesis by (simp add: OpenAIEmbedder_EmbedBatch_def Let_def)
  next
    case (Return r)
    obtain vectors err where "r = (vectors, err)" by (cases r)
    with c Return show ?thesis by (cases err) (simp_all add: OpenAIEmbedder_EmbedBatch_def Let_def)
  qed
  with c have "snd (OpenAIEmbedder_EmbedBatch env cfg inputs w) = w
      \<or> snd (OpenAIEmbedder_EmbedBatch env cfg inputs w) = snd (CreateEmbeddings env cfg ?p w)"
    by simp
  moreover have "sends (set ?p) w (snd (CreateEmbeddings env cfg ?p w))"
    by (rule CreateEmbeddings_sends)
  ultimately show ?thesis
    unfolding set using sends_refl [of _ w] by auto
qed

text \<open>The fallback provider.\<close>

lemma stub_vector_shape:
  "length (fst (stub_vector env n w)) = n \<and> snd (stub_vector env n w) = w\<lparr>draws := draws w + n\<rparr>"
proof (induction n arbitrary: w)
  case 0
  show ?case by simp
next
  case (Suc n)
  obtain vs w1 where v: "stub_vector env n (w\<lparr>draws := Suc (draws w)\<rparr>) = (vs, w1)"
    by (cases "stub_vector env n (w\<lparr>draws := Suc (draws w)\<rparr>)")
  from Suc.IH [of "w\<lparr>draws := Suc (draws w)\<rparr>"] v show ?case by (simp add: Let_def)
qed

lemma stub_vectors_shape:
  "map length (fst (stub_vectors env dim inputs w)) = replicate (length inputs) dim
   \<and> snd (stub_vectors env dim inputs w) = w\<lparr>draws := draws w + length inputs * dim\<rparr>"
proof (induction inputs arbitrary: w)
  case Nil
  then show ?case by simp
next
  case (Cons input inputs)
  obtain vector w1 where v: "stub_vector env dim w = (vector, w1)" by (cases "stub_vector env dim w")
  obtain vectors w2 where vs: "stub_vectors env dim inputs w1 = (vectors, w2)"
    by (cases "stub_vectors env dim inputs w1")
  from stub_vector_shape [of env dim w] v have 1: "length vector = dim" "w1 = w\<lparr>draws := draws w + dim\<rparr>"
    by simp_all
  from Cons.IH [of w1] vs have 2: "map length vectors = replicate (length inputs) dim"
    "w2 = w1\<lparr>draws := draws w1 + length inputs * dim\<rparr>" by simp_all
  from 1 2 v vs show ?case by (simp add: add.assoc)
qed

lemma StubEmbedder_EmbedBatch_store: "store_unchanged w (snd (StubEmbedder_EmbedBatch env dim inputs w))"
proof -
  obtain vs w1 where v: "stub_vectors env dim inputs w = (vs, w1)"
    by (cases "stub_vectors env dim inputs w")
  from stub_vectors_shape [of env dim inputs w] v have "w1 = w\<lparr>draws := draws w + length inputs * dim\<rparr>"
    by simp
  with v show ?thesis by (simp add: StubEmbedder_EmbedBatch_def store_unchanged_def)
qed

lemma EmbedBatch_store: "store_unchanged w (snd (EmbedBatch env e inputs w))"
proof (cases e)
  case (OpenAIEmbedder cfg)
  then show ?thesis
    using OpenAIEmbedder_EmbedBatch_sends [of inputs w env cfg] by (simp add: sends_store_unchanged)
next
  case (StubEmbedder dim)
  then show ?thesis by (simp add: StubEmbedder_EmbedBatch_store)
qed

subsection \<open>The repository and the service\<close>

lemma store_grows_refl: "store_grows w w"
  by (simp add: store_grows_def)

lemma store_grows_trans: "store_grows w w1 \<Longrightarrow> store_grows w1 w2 \<Longrightarrow> store_grows w w2"
  unfolding store_grows_def by auto

lemma store_unchanged_grows: "store_unchanged w w1 \<Longrightarrow> store_grows w w1"
  by (simp add: store_unchanged_def store_grows_def)

lemma insert_on_conflict_do_nothing_grows:
  "store_grows w (snd (insert_on_conflict_do_nothing row w))"
  by (auto simp: insert_on_conflict_do_nothing_def store_grows_def)

lemma UpsertEmbedding_world:
  "snd (UpsertEmbedding env vector w) =
     (case exec_fault env (execs w) of
        Some fault \<Rightarrow> w\<lparr>execs := Suc (execs w)\<rparr>
      | None \<Rightarrow> snd (insert_on_conflict_do_nothing (insert_values vector) (w\<lparr>execs := Suc (execs w)\<rparr>)))"
proof (cases "exec_fault env (execs w)")
  case None
  obtain err w2 where "insert_on_conflict_do_nothing (insert_values vector) (w\<lparr>execs := Suc (execs w)\<rparr>) = (err, w2)"
    by (cases "insert_on_conflict_do_nothing (insert_values vector) (w\<lparr>execs := Suc (execs w)\<rparr>)")
  with None show ?thesis by (cases err) (simp_all add: UpsertEmbedding_def Let_def)
next
  case (Some fault)
  then show ?thesis by (simp add: UpsertEmbedding_def Let_def)
qed

lemma UpsertEmbedding_grows: "store_grows w (snd (UpsertEmbedding env vector w))"
proof -
  let ?w1 = "w\<lparr>execs := Suc (execs w)\<rparr>"
  have 1: "store_grows w ?w1" by (simp add: store_grows_def)
  show ?thesis
  proof (cases "exec_fault env (execs w)")
    case None
    have "store_grows ?w1 (snd (insert_on_conflict_do_nothing (insert_values vector) ?w1))"
      by (rule insert_on_conflict_do_nothing_grows)
    with 1 have "store_grows w (snd (insert_on_conflict_do_nothing (insert_values vector) ?w1))"
      by (rule store_grows_trans)
    with None show ?thesis by (simp add: UpsertEmbedding_world)
  next
    case (Some fault)
    with 1 show ?thesis by (simp add: UpsertEmbedding_world)
  qed
qed

lemma UpsertEmbedding_existing:
  assumes "ReviewID vector \<in> set (map re_review_id (review_embeddings w))"
  shows "review_embeddings (snd (UpsertEmbedding env vector w)) = review_embeddings w"
    and "exec_fault env (execs w) = None \<Longrightarrow> fst (UpsertEmbedding env vector w) = None"
proof -
  have r: "re_review_id (insert_values vector) = ReviewID vector"
    by (simp add: insert_values_def Let_def)
  with assms have i: "insert_on_conflict_do_nothing (insert_values vector) (w\<lparr>execs := Suc (execs w)\<rparr>)
      = (None, w\<lparr>execs := Suc (execs w)\<rparr>)"
    by (simp add: insert_on_conflict_do_nothing_def)
  show "review_embeddings (snd (UpsertEmbedding env vector w)) = review_embeddings w"
    using i by (cases "exec_fault env (execs w)") (simp_all add: UpsertEmbedding_world)
  show "fst (UpsertEmbedding env vector w) = None" if "exec_fault env (execs w) = None"
    using i that by (simp add: UpsertEmbedding_def Let_def)
qed

lemma createVector_world: "snd (createVector env s review contentVec responseVectors index w) = w\<lparr>uuids := Suc (uuids w)\<rparr>"
  by (simp add: createVector_def NewVector_def Let_def)

lemma createVector_grows: "store_grows w (snd (createVector env s review contentVec responseVectors index w))"
  by (simp add: createVector_world store_grows_def)

lemma storeVectors_loop_grows:
  "store_grows w (snd (storeVectors_loop env s contentVectors responseVectors i reviews result w))"
proof (induction reviews arbitrary: i result w)
  case Nil
  show ?case by (simp add: store_grows_refl)
next
  case (Cons review reviews)
  show ?case
  proof (cases "i < length contentVectors")
    case False
    then show ?thesis by (simp add: store_grows_refl)
  next
    case True
    obtain vector w1 where cv: "createVector env s review (contentVectors ! i) responseVectors i w = (vector, w1)"
      by (cases "createVector env s review (contentVectors ! i) responseVectors i w")
    obtain err w2 where up: "UpsertEmbedding env vector w1 = (err, w2)"
      by (cases "UpsertEmbedding env vector w1")
    have "store_grows w w1" using createVector_grows [of w env s review "contentVectors ! i" responseVectors i] cv
      by simp
    moreover have "store_grows w1 w2" using UpsertEmbedding_grows [of w1 env vector] up by simp
    ultimately have "store_grows w w2" by (rule store_grows_trans)
    then show ?thesis
      using True cv up Cons.IH store_grows_trans by (simp add: Let_def) blast
  qed
qed

lemma generateEmbeddings_unchanged:
  "store_unchanged w (snd (generateEmbeddings env s contentTexts responseTexts w))"
proof -
  obtain o1 w1 where e1: "EmbedBatch env (s_embedder s) contentTexts w = (o1, w1)"
    by (cases "EmbedBatch env (s_embedder s) contentTexts w")
  have u1: "store_unchanged w w1" using EmbedBatch_store [of w env "s_embedder s" contentTexts] e1 by simp
  let ?ne = "filterNonEmptyResponses responseTexts"
  obtain o2 w2 where e2: "EmbedBatch env (s_embedder s) ?ne w1 = (o2, w2)"
    by (cases "EmbedBatch env (s_embedder s) ?ne w1")
  have "store_unchanged w1 w2" using EmbedBatch_store [of w1 env "s_embedder s" ?ne] e2 by simp
  with u1 have u2: "store_unchanged w w2" by (rule store_unchanged_trans)
  show ?thesis
  proof (cases o1)
    case (Panic p)
    with e1 u1 show ?thesis by (simp add: generateEmbeddings_def)
  next
    case (Return r)
    obtain contentVectors err where r: "r = (contentVectors, err)" by (cases r)
    show ?thesis
    proof (cases err)
      case (Some e)
      with e1 u1 Return r show ?thesis by (simp add: generateEmbeddings_def)
    next
      case None
      show ?thesis
      proof (cases "length ?ne > 0")
        case False
        with e1 u1 Return r None show ?thesis by (simp add: generateEmbeddings_def Let_def)
      next
        case True
        show ?thesis
        proof (cases o2)
          case (Panic p)
          with e1 e2 u2 Return r None True show ?thesis by (simp add: generateEmbeddings_def Let_def)
        next
          case R2: (Return r2)
          obtain responseVectors err2 where r2: "r2 = (responseVectors, err2)" by (cases r2)
          with e1 e2 u2 Return r None True R2 show ?thesis
            by (cases err2) (simp_all add: generateEmbeddings_def Let_def)
        qed
      qed
    qed
  qed
qed

lemma processBatch_grows: "store_grows w (snd (processBatch env s reviews w))"
proof (cases "reviews = []")
  case True
  then show ?thesis by (simp add: processBatch_def store_grows_refl)
next
  case False
  obtain cts rts where pt: "prepareTexts reviews = (cts, rts)" by (cases "prepareTexts reviews")
  with False have cts: "cts \<noteq> []" by (auto simp: prepareTexts_def)
  obtain o1 w1 where g: "generateEmbeddings env s cts rts w = (o1, w1)"
    by (cases "generateEmbeddings env s cts rts w")
  have g1: "store_grows w w1"
    using generateEmbeddings_unchanged [of w env s cts rts] g by (simp add: store_unchanged_grows)
  show ?thesis
  proof (cases o1)
    case (Panic p)
    with False pt cts g g1 show ?thesis by (simp add: processBatch_def)
  next
    case (Return r)
    obtain vs err where r: "r = (vs, err)" by (cases r)
    obtain cv rv where vs: "vs = (cv, rv)" by (cases vs)
    show ?thesis
    proof (cases err)
      case (Some e)
      with False pt cts g g1 Return r vs show ?thesis by (simp add: processBatch_def)
    next
      case None
      obtain o2 w2 where st: "storeVectors env s reviews cv rv w1 = (o2, w2)"
        by (cases "storeVectors env s reviews cv rv w1")
      have "store_grows w1 w2"
        using storeVectors_loop_grows [of w1 env s cv rv 0 reviews empty_result] st
        by (simp add: storeVectors_def)
      with g1 have "store_grows w w2" by (rule store_grows_trans)
      with False pt cts g Return r vs None st show ?thesis
        by (cases o2) (simp_all add: processBatch_def)
    qed
  qed
qed

lemma processReviewsInBatches_loop_rel:
  fixes reviews :: "'r list"
  assumes refl: "\<And>w. R w w"
    and trans: "\<And>a b c. R a b \<Longrightarrow> R b c \<Longrightarrow> R a c"
    and step: "\<And>batch w. R w (snd (pb batch w))"
    and run: "processReviewsInBatches_loop pb B reviews i result w = Some (out, w1)"
  shows "R w w1"
proof -
  let ?P = "\<lambda>pb' (B :: nat) (reviews :: 'r list) (i :: nat) (result :: VectorizeResult) w y.
              pb' = pb \<longrightarrow> R w (snd y)"
  have "?P pb B reviews i result w (out, w1)"
  proof (rule processReviewsInBatches_loop.raw_induct [where P = ?P, OF _ run], goal_cases)
    case (1 lp pb' B reviews i result w y)
    show ?case
    proof
      assume eq: "pb' = pb"
      show "R w (snd y)"
      proof (cases "i < length reviews")
        case False
        with 1(2) have "y = (Return result, w)" by simp
        then show ?thesis by (simp add: refl)
      next
        case True
        define batch where "batch = slice reviews i (min (i + B) (length reviews))"
        obtain ob wa where pb: "pb' batch w = (ob, wa)" by (cases "pb' batch w")
        have r1: "R w wa" using step [of w batch] pb eq by simp
        show ?thesis
        proof (cases ob)
          case (Panic p)
          with 1(2) True pb have "y = (Panic p, wa)" by (simp add: Let_def batch_def [symmetric])
          with r1 show ?thesis by simp
        next
          case (Return r)
          obtain batchResult err where r: "r = (batchResult, err)" by (cases r)
          have "\<exists>result'. lp pb' B reviews (i + B) result' wa = Some y"
            using 1(2) True pb Return r
            by (cases err) (auto simp: Let_def batch_def [symmetric])
          then obtain result' where "lp pb' B reviews (i + B) result' wa = Some y" by blast
          from 1(1) [OF this] eq have "R wa (snd y)" by simp
          with r1 show ?thesis by (rule trans)
        qed
      qed
    qed
  qed
  then show ?thesis by simp
qed

lemma processReviewsInBatches_grows:
  "processReviewsInBatches env s reviews w = Some (out, w1) \<Longrightarrow> store_grows w w1"
  unfolding processReviewsInBatches_def
  by (rule processReviewsInBatches_loop_rel [where R = store_grows and pb = "processBatch env s"])
     (auto intro: store_grows_refl store_grows_trans processBatch_grows)

lemma GetCleanReviewsForVectorization_world:
  "snd (GetCleanReviewsForVectorization env filters limit offset w)
     = w\<lparr>queries := queries w @ [(limit, offset)]\<rparr>"
  by (cases "query_fault env (length (queries w))")
     (simp_all add: GetCleanReviewsForVectorization_def Let_def)

lemma processAllReviews_loop_distinct:
  fixes env :: "('d, 'f) env" and w :: "'f world"
  assumes run: "processAllReviews_loop env s filters batchSize offset result w = Some (out, w1)"
  shows "distinct (map re_review_id (review_embeddings w))
           \<longrightarrow> distinct (map re_review_id (review_embeddings w1))"
proof -
  let ?D = "\<lambda>w :: 'f world. distinct (map re_review_id (review_embeddings w))"
  let ?P = "\<lambda>env' s' (filters :: CleanReviewFilters) (batchSize :: nat) (offset :: nat)
              (result :: VectorizeResult) w y. env' = env \<and> s' = s \<longrightarrow> ?D w \<longrightarrow> ?D (snd y)"
  have "?P env s filters batchSize offset result w (out, w1)"
  proof (rule processAllReviews_loop.raw_induct [where P = ?P, OF _ run], goal_cases)
    case (1 lp env' s' filters batchSize offset result w y)
    show ?case
    proof (intro impI)
      assume eq: "env' = env \<and> s' = s" and d: "?D w"
      obtain reviews err wa where f: "GetCleanReviewsForVectorization env' filters batchSize offset w = ((reviews, err), wa)"
        by (cases "GetCleanReviewsForVectorization env' filters batchSize offset w") auto
      have wa: "wa = w\<lparr>queries := queries w @ [(batchSize, offset)]\<rparr>"
        using GetCleanReviewsForVectorization_world [of env' filters batchSize offset w] f by simp
      with d have da: "?D wa" by simp
      show "?D (snd y)"
      proof (cases err)
        case (Some e)
        with 1(2) f have "snd y = wa" by auto
        with da show ?thesis by simp
      next
        case None
        show ?thesis
        proof (cases "reviews = []")
          case True
          with 1(2) f None have "snd y = wa" by auto
          with da show ?thesis by simp
        next
          case False
          show ?thesis
          proof (cases "processReviewsInBatches env' s' reviews wa")
            case N: None
            with 1(2) f None False show ?thesis by simp
          next
            case (Some p)
            obtain ob wb where p: "p = (ob, wb)" by (cases p)
            from Some p eq have "store_grows wa wb" using processReviewsInBatches_grows by blast
            with da have db: "?D wb" by (simp add: store_grows_def)
            show ?thesis
            proof (cases ob)
              case (Panic x)
              with 1(2) f None False Some p have "snd y = wb" by auto
              with db show ?thesis by simp
            next
              case (Return batchResult)
              from 1(2) f None False Some p Return
              have "snd y = wb \<or> (\<exists>result'. lp env' s' filters batchSize (offset + batchSize) result' wb = Some y)"
                by (auto simp: Let_def split: if_splits)
              then show ?thesis
              proof
                assume "snd y = wb"
                with db show ?thesis by simp
              next
                assume "\<exists>result'. lp env' s' filters batchSize (offset + batchSize) result' wb = Some y"
                then obtain result' where "lp env' s' filters batchSize (offset + batchSize) result' wb = Some y"
                  by blast
                from 1(1) [OF this] eq db show ?thesis by simp
              qed
            qed
          qed
        qed
      qed
    qed
  qed
  then show ?thesis by simp
qed

lemma RunOnce_distinct:
  assumes "RunOnce env s req w = Some (out, w1)"
    and "distinct (map re_review_id (review_embeddings w))"
  shows "distinct (map re_review_id (review_embeddings w1))"
proof -
  let ?f = "\<lparr>ForceRecompute = ForceRecompute req, FilterAppID = FilterAppID req,
             Countries = Countries req, Languages = Languages req,
             DateFrom = DateFrom req, DateTo = DateTo req\<rparr>"
  let ?run = "processAllReviews_loop env s ?f (determineBatchSize s (Limit req)) 0 empty_result w"
  from assms(1) obtain o1 where "?run = Some (o1, w1)"
    by (auto simp: RunOnce_def processAllReviews_def Let_def
             split: option.splits outcome.splits prod.splits)
  from processAllReviews_loop_distinct [OF this] assms(2) show ?thesis by simp
qed

subsection \<open>Sub-batches and retries\<close>

lemma ceil_div_less: "0 < B \<Longrightarrow> m < (N + B - 1) div B \<longleftrightarrow> m * B < N" for m N B :: nat
proof -
  assume B: "0 < B"
  have "m < (N + B - 1) div B \<longleftrightarrow> Suc m \<le> (N + B - 1) div B" by auto
  also have "\<dots> \<longleftrightarrow> Suc m * B \<le> N + B - 1" using B by (rule less_eq_div_iff_mult_less_eq)
  also have "\<dots> \<longleftrightarrow> m * B < N" using B by auto
  finally show ?thesis .
qed

lemma add_result_empty: "add_result result empty_result = result"
  by (simp add: add_result_def empty_result_def)

lemma slice_append_drop:
  "slice xs i (min (i + B) (length xs)) @ drop (i + B) xs = drop i xs"
proof (cases "i + B \<le> length xs")
  case True
  then have "slice xs i (min (i + B) (length xs)) = take B (drop i xs)"
    by (simp add: slice_def min_def)
  moreover have "take B (drop i xs) @ drop B (drop i xs) = drop i xs"
    by (rule append_take_drop_id)
  then have "take B (drop i xs) @ drop (i + B) xs = drop i xs" by (simp add: add.commute)
  ultimately show ?thesis by simp
next
  case False
  then have "slice xs i (min (i + B) (length xs)) = drop i xs"
    by (simp add: slice_def min_def)
  with False show ?thesis by simp
qed

lemma processReviewsInBatches_loop_run_batches:
  assumes B: "0 < B" and n: "n = (length reviews + B - 1) div B"
  shows "m \<le> n \<Longrightarrow>
    processReviewsInBatches_loop pb B reviews (m * B) result w
      = Some (run_batches pb
                (map (\<lambda>k. slice reviews (k * B) (min (k * B + B) (length reviews))) [m..<n]) result w)"
proof (induction "n - m" arbitrary: m result w)
  case 0
  then have "m = n" by simp
  with B n have "\<not> m * B < length reviews" using ceil_div_less [of B m "length reviews"] by simp
  with \<open>m = n\<close> show ?case by (subst processReviewsInBatches_loop.simps) simp
next
  case (Suc d)
  then have lt: "m < n" by simp
  with B n have i: "m * B < length reviews" using ceil_div_less [of B m "length reviews"] by simp
  let ?f = "\<lambda>k. slice reviews (k * B) (min (k * B + B) (length reviews))"
  let ?batch = "slice reviews (m * B) (min (m * B + B) (length reviews))"
  from Suc.hyps(2) have d: "d = n - Suc m" by simp
  from lt have le: "Suc m \<le> n" by simp
  have up: "map ?f [m..<n] = ?batch # map ?f [Suc m..<n]"
    using lt by (simp add: upt_conv_Cons)
  have ih: "processReviewsInBatches_loop pb B reviews (m * B + B) result' w'
      = Some (run_batches pb (map ?f [Suc m..<n]) result' w')" for result' w'
    using Suc.hyps(1) [OF d le, of result' w'] by (simp add: add.commute)
  obtain ob w1 where pb: "pb ?batch w = (ob, w1)" by (cases "pb ?batch w")
  show ?case
  proof (cases ob)
    case (Panic p)
    with i pb show ?thesis
      by (subst processReviewsInBatches_loop.simps) (simp add: Let_def up)
  next
    case (Return r)
    obtain batchResult err where r: "r = (batchResult, err)" by (cases r)
    show ?thesis
    proof (cases err)
      case None
      with i pb Return r ih show ?thesis
        by (subst processReviewsInBatches_loop.simps) (simp add: Let_def up)
    next
      case (Some e)
      with i pb Return r ih show ?thesis
        by (subst processReviewsInBatches_loop.simps) (simp add: Let_def up)
    qed
  qed
qed

lemma run_batches_logged:
  "\<exists>k\<le>length batches.
     run_batches (logged pb) batches result (seen, w)
       = (fst (run_batches pb batches result w), (seen @ take k batches, snd (run_batches pb batches result w)))
     \<and> (\<forall>r. fst (run_batches pb batches result w) = Return r \<longrightarrow> k = length batches)"
proof (induction batches arbitrary: result seen w)
  case Nil
  show ?case by simp
next
  case (Cons batch batches)
  obtain ob w1 where pb: "pb batch w = (ob, w1)" by (cases "pb batch w")
  then have lg: "logged pb batch (seen, w) = (ob, (seen @ [batch], w1))" by (simp add: logged_def)
  show ?case
  proof (cases ob)
    case (Panic p)
    with pb lg show ?thesis by (intro exI [of _ 1]) simp
  next
    case (Return r)
    obtain batchResult err where r: "r = (batchResult, err)" by (cases r)
    define result1 where "result1 = (case err of None \<Rightarrow> add_result result batchResult
                                       | Some e \<Rightarrow> result\<lparr>Failed := Failed result + length batch\<rparr>)"
    have 1: "run_batches pb (batch # batches) result w = run_batches pb batches result1 w1"
      using pb Return r by (cases err) (simp_all add: result1_def)
    have 2: "run_batches (logged pb) (batch # batches) result (seen, w)
        = run_batches (logged pb) batches result1 (seen @ [batch], w1)"
      using lg Return r by (cases err) (simp_all add: result1_def)
    from Cons.IH [of result1 "seen @ [batch]" w1]
    obtain k where k: "k \<le> length batches"
      "run_batches (logged pb) batches result1 (seen @ [batch], w1)
         = (fst (run_batches pb batches result1 w1),
            ((seen @ [batch]) @ take k batches, snd (run_batches pb batches result1 w1)))"
      "\<forall>r. fst (run_batches pb batches result1 w1) = Return r \<longrightarrow> k = length batches"
      by blast
    from k show ?thesis unfolding 1 2 by (intro exI [of _ "Suc k"]) simp
  qed
qed

lemma concat_sub_batches:
  assumes B: "0 < B" and n: "n = (length reviews + B - 1) div B"
  shows "m \<le> n \<Longrightarrow>
    concat (map (\<lambda>k. slice reviews (k * B) (min (k * B + B) (length reviews))) [m..<n])
      = drop (m * B) reviews"
proof (induction "n - m" arbitrary: m)
  case 0
  then have "m = n" by simp
  with B n have "\<not> m * B < length reviews" using ceil_div_less [of B m "length reviews"] by simp
  with \<open>m = n\<close> show ?case by simp
next
  case (Suc d)
  then have lt: "m < n" by simp
  from Suc.hyps(2) have d: "d = n - Suc m" by simp
  from lt have le: "Suc m \<le> n" by simp
  have "concat (map (\<lambda>k. slice reviews (k * B) (min (k * B + B) (length reviews))) [m..<n])
      = slice reviews (m * B) (min (m * B + B) (length reviews))
        @ concat (map (\<lambda>k. slice reviews (k * B) (min (k * B + B) (length reviews))) [Suc m..<n])"
    using lt by (simp add: upt_conv_Cons)
  also have "\<dots> = slice reviews (m * B) (min (m * B + B) (length reviews)) @ drop (Suc m * B) reviews"
    using Suc.hyps(1) [OF d le] by simp
  also have "\<dots> = drop (m * B) reviews"
    using slice_append_drop [of reviews "m * B" B] by (simp add: add.commute)
  finally show ?case .
qed

lemma length_sub_batches: "length (sub_batches B reviews) = (length reviews + B - 1) div B"
  by (simp add: sub_batches_def)

lemma nth_sub_batches:
  "k < length (sub_batches B reviews)
     \<Longrightarrow> sub_batches B reviews ! k = slice reviews (k * B) (min (k * B + B) (length reviews))"
  by (simp add: sub_batches_def)

lemma concat_sub_batches_all: "0 < B \<Longrightarrow> concat (sub_batches B reviews) = reviews"
  using concat_sub_batches [of B "(length reviews + B - 1) div B" reviews 0]
  by (simp add: sub_batches_def)

lemma OpenAIClient_processBatch_all_fail:
  assumes "\<forall>j\<le>MaxRetries cfg. respond env (length (requests w) + j)
              \<lparr>Input = texts, EmbeddingRequest.Model = OpenAIConfig.Model cfg\<rparr> = Inl (fail j)"
  shows "OpenAIClient_processBatch env cfg texts w
    = (Return ([], Some (Wrapf ''all retry attempts failed: %w'' [] (fail (MaxRetries cfg)))),
       w\<lparr>requests := requests w @ replicate (MaxRetries cfg + 1)
            \<lparr>Input = texts, EmbeddingRequest.Model = OpenAIConfig.Model cfg\<rparr>\<rparr>)"
proof -
  let ?req = "\<lparr>Input = texts, EmbeddingRequest.Model = OpenAIConfig.Model cfg\<rparr>"
  have "retry_loop env (MaxRetries cfg) ?req 0 None w
      = (Some (Inl (fail (MaxRetries cfg))),
         w\<lparr>requests := requests w @ replicate (Suc (MaxRetries cfg - 0)) ?req\<rparr>)"
    by (rule retry_loop_all_fail) (use assms in simp_all)
  then show ?thesis by (simp add: OpenAIClient_processBatch_def Let_def)
qed

lemma OpenAIClient_processBatch_success:
  assumes "k \<le> MaxRetries cfg"
    and "\<forall>j<k. isl (respond env (length (requests w) + j)
              \<lparr>Input = texts, EmbeddingRequest.Model = OpenAIConfig.Model cfg\<rparr>)"
    and "respond env (length (requests w) + k)
              \<lparr>Input = texts, EmbeddingRequest.Model = OpenAIConfig.Model cfg\<rparr> = Inr resp"
  shows "OpenAIClient_processBatch env cfg texts w
    = (Return (map (\<lambda>embedding. map (float32 env) (Embedding embedding)) (Data resp), None),
       w\<lparr>requests := requests w @ replicate (k + 1)
            \<lparr>Input = texts, EmbeddingRequest.Model = OpenAIConfig.Model cfg\<rparr>\<rparr>)"
proof -
  let ?req = "\<lparr>Input = texts, EmbeddingRequest.Model = OpenAIConfig.Model cfg\<rparr>"
  have "retry_loop env (MaxRetries cfg) ?req 0 None w
      = (Some (Inr resp), w\<lparr>requests := requests w @ replicate (Suc k) ?req\<rparr>)"
    by (rule retry_loop_success) (use assms in simp_all)
  then show ?thesis by (simp add: OpenAIClient_processBatch_def Let_def)
qed

lemma chunks_done_Suc:
  assumes "chunks_done env cfg texts w0 (Suc c) = Some (acc, w)"
  obtains allVectors w' vectors where
    "chunks_done env cfg texts w0 c = Some (allVectors, w')"
    "c * 10 < length texts"
    "OpenAIClient_processBatch env cfg
       (slice texts (c * 10) (if c * 10 + 10 > length texts then length texts else c * 10 + 10)) w'
       = (Return (vectors, None), w)"
    "acc = allVectors @ vectors"
proof -
  from assms obtain allVectors w' where cd: "chunks_done env cfg texts w0 c = Some (allVectors, w')"
    by (cases "chunks_done env cfg texts w0 c") auto
  with assms have lt: "c * 10 < length texts" by (simp split: if_splits)
  let ?chunk = "slice texts (c * 10) (if c * 10 + 10 > length texts then length texts else c * 10 + 10)"
  obtain ob w1 where pb: "OpenAIClient_processBatch env cfg ?chunk w' = (ob, w1)"
    by (cases "OpenAIClient_processBatch env cfg ?chunk w'")
  show thesis
  proof (cases ob)
    case (Panic p)
    with assms cd lt pb show ?thesis by simp
  next
    case (Return r)
    obtain vectors err where r: "r = (vectors, err)" by (cases r)
    show ?thesis
    proof (cases err)
      case (Some e)
      with assms cd lt pb Return r show ?thesis by simp
    next
      case None
      with assms cd lt pb Return r have "w1 = w" "acc = allVectors @ vectors" by simp_all
      with cd lt pb Return r None that show ?thesis by simp
    qed
  qed
qed

lemma chunks_done_loop:
  "chunks_done env cfg texts w0 c = Some (acc, w)
     \<Longrightarrow> CreateEmbeddings_loop env cfg texts 0 [] w0 = CreateEmbeddings_loop env cfg texts (c * 10) acc w"
proof (induction c arbitrary: acc w)
  case 0
  then show ?case by simp
next
  case (Suc c)
  from Suc.prems obtain allVectors w' vectors where
    cd: "chunks_done env cfg texts w0 c = Some (allVectors, w')"
    and lt: "c * 10 < length texts"
    and pb: "OpenAIClient_processBatch env cfg
       (slice texts (c * 10) (if c * 10 + 10 > length texts then length texts else c * 10 + 10)) w'
       = (Return (vectors, None), w)"
    and acc: "acc = allVectors @ vectors"
    by (rule chunks_done_Suc)
  have "CreateEmbeddings_loop env cfg texts 0 [] w0 = CreateEmbeddings_loop env cfg texts (c * 10) allVectors w'"
    by (rule Suc.IH [OF cd])
  also have "\<dots> = CreateEmbeddings_loop env cfg texts (c * 10 + 10) (allVectors @ vectors) w"
    using lt by (subst CreateEmbeddings_loop.simps) (simp only: Let_def pb if_True prod.case outcome.case option.case)
  finally show ?case by (simp add: acc add.commute)
qed

lemma chunks_done_store:
  "chunks_done env cfg texts w0 c = Some (acc, w) \<Longrightarrow> store_unchanged w0 w"
proof (induction c arbitrary: acc w)
  case 0
  then show ?case by (simp add: store_unchanged_refl)
next
  case (Suc c)
  from Suc.prems obtain allVectors w' vectors where
    cd: "chunks_done env cfg texts w0 c = Some (allVectors, w')"
    and pb: "OpenAIClient_processBatch env cfg
       (slice texts (c * 10) (if c * 10 + 10 > length texts then length texts else c * 10 + 10)) w'
       = (Return (vectors, None), w)"
    by (rule chunks_done_Suc)
  have "store_unchanged w0 w'" by (rule Suc.IH [OF cd])
  moreover have "store_unchanged w' w"
    using OpenAIClient_processBatch_sends [of _ w' env cfg] pb
    by (metis sends_store_unchanged snd_conv)
  ultimately show ?case by (rule store_unchanged_trans)
qed

lemma CreateEmbeddings_chunk_fails:
  assumes cd: "chunks_done env cfg texts w0 c = Some (allVectors, w)"
    and lt: "c * 10 < length texts"
    and pb: "OpenAIClient_processBatch env cfg (slice texts (c * 10) (min (c * 10 + 10) (length texts))) w
               = (Return (vectors, Some err), w1)"
  shows "CreateEmbeddings env cfg texts w0
    = (Return ([], Some (Wrapf ''failed to process batch %d-%d: %w''
                           [Num (c * 10), Num (min (c * 10 + 10) (length texts))] err)), w1)"
proof -
  have e: "(if c * 10 + 10 > length texts then length texts else c * 10 + 10) = min (c * 10 + 10) (length texts)"
    by (simp add: min_def)
  have "CreateEmbeddings_loop env cfg texts 0 [] w0 = CreateEmbeddings_loop env cfg texts (c * 10) allVectors w"
    by (rule chunks_done_loop [OF cd])
  also have "\<dots> = (Return ([], Some (Wrapf ''failed to process batch %d-%d: %w''
                           [Num (c * 10), Num (min (c * 10 + 10) (length texts))] err)), w1)"
    using lt by (subst CreateEmbeddings_loop.simps) (simp only: e Let_def pb if_True prod.case outcome.case option.case)
  finally show ?thesis using lt by (auto simp: CreateEmbeddings_def)
qed

lemma processBatch_content_call_fails:
  assumes emb: "s_embedder s = OpenAIEmbedder cfg"
    and valid: "valid = filter (\<lambda>processed. processed \<noteq> []) (map preprocessText (map ContentClean batch))"
    and cd: "chunks_done env cfg valid w0 c = Some (allVectors, w)"
    and lt: "c * 10 < length valid"
    and texts: "texts = slice valid (c * 10) (min (c * 10 + 10) (length valid))"
    and fail: "\<forall>j\<le>MaxRetries cfg. respond env (length (requests w) + j)
              \<lparr>Input = texts, EmbeddingRequest.Model = OpenAIConfig.Model cfg\<rparr> = Inl (fail j)"
  shows "processBatch env s batch w0
    = (Return (empty_result,
         Some (Wrapf ''failed to generate content embeddings: %w'' []
                (Wrapf ''failed to generate embeddings: %w'' []
                  (Wrapf ''failed to process batch %d-%d: %w''
                     [Num (c * 10), Num (min (c * 10 + 10) (length valid))]
                    (Wrapf ''all retry attempts failed: %w'' [] (fail (MaxRetries cfg))))))),
       w\<lparr>requests := requests w @ replicate (MaxRetries cfg + 1)
            \<lparr>Input = texts, EmbeddingRequest.Model = OpenAIConfig.Model cfg\<rparr>\<rparr>)"
proof -
  let ?w1 = "w\<lparr>requests := requests w @ replicate (MaxRetries cfg + 1)
            \<lparr>Input = texts, EmbeddingRequest.Model = OpenAIConfig.Model cfg\<rparr>\<rparr>"
  let ?err = "Wrapf ''failed to process batch %d-%d: %w''
                     [Num (c * 10), Num (min (c * 10 + 10) (length valid))]
                    (Wrapf ''all retry attempts failed: %w'' [] (fail (MaxRetries cfg)))"
  from lt have p: "valid \<noteq> []" by auto
  with valid have ne: "batch \<noteq> []" by auto
  have c: "OpenAIClient_processBatch env cfg (slice valid (c * 10) (min (c * 10 + 10) (length valid))) w
    = (Return ([], Some (Wrapf ''all retry attempts failed: %w'' [] (fail (MaxRetries cfg)))), ?w1)"
    using OpenAIClient_processBatch_all_fail [OF fail] texts by simp
  have ce: "CreateEmbeddings env cfg valid w0 = (Return ([], Some ?err), ?w1)"
    by (rule CreateEmbeddings_chunk_fails [OF cd lt c])
  have eb: "EmbedBatch env (s_embedder s) (map ContentClean batch) w0
    = (Return ([], Some (Wrapf ''failed to generate embeddings: %w'' [] ?err)), ?w1)"
    unfolding emb EmbedBatch.simps OpenAIEmbedder_EmbedBatch_def Let_def valid [symmetric]
    using ne p ce by simp
  have pt: "fst (prepareTexts batch) = map ContentClean batch" by (simp add: prepareTexts_def)
  obtain rts where pr: "prepareTexts batch = (map ContentClean batch, rts)"
    using pt by (cases "prepareTexts batch") simp
  have ge: "generateEmbeddings env s (map ContentClean batch) rts w0
    = (Return (([], []), Some (Wrapf ''failed to generate content embeddings: %w'' []
        (Wrapf ''failed to generate embeddings: %w'' [] ?err))), ?w1)"
    by (simp add: generateEmbeddings_def eb)
  show ?thesis using ne by (simp add: processBatch_def pr ge)
qed

lemma createVector_no_response:
  "ResponseVec (fst (createVector env s review contentVec [] index w)) = []"
  by (simp add: createVector_def NewVector_def Let_def)

lemma UpsertEmbedding_no_response:
  assumes "ResponseVec vector = []"
  shows "\<exists>rows. review_embeddings (snd (UpsertEmbedding env vector w)) = review_embeddings w @ rows
           \<and> (\<forall>row\<in>set rows. re_response_vec row = None)"
proof -
  from assms have n: "re_response_vec (insert_values vector) = None"
    by (simp add: insert_values_def Let_def)
  have "review_embeddings (snd (UpsertEmbedding env vector w)) = review_embeddings w @ []
      \<or> review_embeddings (snd (UpsertEmbedding env vector w)) = review_embeddings w @ [insert_values vector]"
    by (cases "exec_fault env (execs w)")
       (simp_all add: UpsertEmbedding_world insert_on_conflict_do_nothing_def)
  then show ?thesis
  proof
    assume "review_embeddings (snd (UpsertEmbedding env vector w)) = review_embeddings w @ []"
    then show ?thesis by (intro exI [of _ "[]"]) simp
  next
    assume "review_embeddings (snd (UpsertEmbedding env vector w)) = review_embeddings w @ [insert_values vector]"
    with n show ?thesis by (intro exI [of _ "[insert_values vector]"]) simp
  qed
qed

lemma storeVectors_loop_no_response:
  "\<exists>rows. review_embeddings (snd (storeVectors_loop env s contentVectors [] i reviews result w))
             = review_embeddings w @ rows
           \<and> (\<forall>row\<in>set rows. re_response_vec row = None)"
proof (induction reviews arbitrary: i result w)
  case Nil
  show ?case by (intro exI [of _ "[]"]) simp
next
  case (Cons review reviews)
  show ?case
  proof (cases "i < length contentVectors")
    case False
    then show ?thesis by (intro exI [of _ "[]"]) simp
  next
    case True
    obtain vector w1 where cv: "createVector env s review (contentVectors ! i) [] i w = (vector, w1)"
      by (cases "createVector env s review (contentVectors ! i) [] i w")
    obtain err w2 where up: "UpsertEmbedding env vector w1 = (err, w2)"
      by (cases "UpsertEmbedding env vector w1")
    define result1 where "result1 = (case err of
                          Some err \<Rightarrow> result\<lparr>Failed := Failed result + 1\<rparr>
                        | None \<Rightarrow> result\<lparr>Processed := Processed result + 1,
                                          ReviewIDs := ReviewIDs result @ [ID review]\<rparr>)"
    from cv have rv: "ResponseVec vector = []"
      using createVector_no_response [of env s review "contentVectors ! i" i w] by simp
    from cv have w1: "review_embeddings w1 = review_embeddings w"
      using createVector_world [of env s review "contentVectors ! i" "[]" i w] by simp
    from UpsertEmbedding_no_response [OF rv, of env w1] up w1
    obtain rows1 where r1: "review_embeddings w2 = review_embeddings w @ rows1"
      "\<forall>row\<in>set rows1. re_response_vec row = None" by auto
    from Cons.IH [of "i + 1" result1 w2]
    obtain rows2 where r2:
      "review_embeddings (snd (storeVectors_loop env s contentVectors [] (i + 1) reviews result1 w2))
         = review_embeddings w2 @ rows2"
      "\<forall>row\<in>set rows2. re_response_vec row = None" by blast
    have step: "storeVectors_loop env s contentVectors [] i (review # reviews) result w
        = storeVectors_loop env s contentVectors [] (i + 1) reviews result1 w2"
      using True cv up by (simp add: Let_def result1_def)
    from r1 r2 show ?thesis unfolding step by (intro exI [of _ "rows1 @ rows2"]) auto
  qed
qed

lemma processBatch_response_call_fails:
  assumes ne: "batch \<noteq> []"
    and c: "EmbedBatch env (s_embedder s) (fst (prepareTexts batch)) w = (Return (contentVectors, None), w1)"
    and r: "filterNonEmptyResponses (snd (prepareTexts batch)) \<noteq> []"
    and f: "EmbedBatch env (s_embedder s) (filterNonEmptyResponses (snd (prepareTexts batch))) w1
              = (Return (responseVectors, Some err), w2)"
  shows "generateEmbeddings env s (fst (prepareTexts batch)) (snd (prepareTexts batch)) w
           = (Return ((contentVectors, []), None), w2)"
    and "processBatch env s batch w
           = (case storeVectors env s batch contentVectors [] w2 of
                (Panic p, w3) \<Rightarrow> (Panic p, w3)
              | (Return result, w3) \<Rightarrow> (Return (result, None), w3))"
    and "\<exists>rows. review_embeddings (snd (processBatch env s batch w)) = review_embeddings w @ rows
           \<and> (\<forall>row\<in>set rows. re_response_vec row = None)"
proof -
  show ge: "generateEmbeddings env s (fst (prepareTexts batch)) (snd (prepareTexts batch)) w
           = (Return ((contentVectors, []), None), w2)"
    using r by (simp add: generateEmbeddings_def c f Let_def)
  obtain cts rts where pt: "prepareTexts batch = (cts, rts)" by (cases "prepareTexts batch")
  with ne have cts: "cts \<noteq> []" by (auto simp: prepareTexts_def)
  show pb: "processBatch env s batch w
           = (case storeVectors env s batch contentVectors [] w2 of
                (Panic p, w3) \<Rightarrow> (Panic p, w3)
              | (Return result, w3) \<Rightarrow> (Return (result, None), w3))"
    using ne cts ge by (simp add: processBatch_def pt)
  have "store_unchanged w w1" using EmbedBatch_store [of w env "s_embedder s" "fst (prepareTexts batch)"] c
    by simp
  moreover have "store_unchanged w1 w2"
    using EmbedBatch_store [of w1 env "s_embedder s" "filterNonEmptyResponses (snd (prepareTexts batch))"] f
    by simp
  ultimately have "store_unchanged w w2" by (rule store_unchanged_trans)
  then have u: "review_embeddings w2 = review_embeddings w" by (simp add: store_unchanged_def)
  obtain ob w3 where st: "storeVectors env s batch contentVectors [] w2 = (ob, w3)"
    by (cases "storeVectors env s batch contentVectors [] w2")
  from storeVectors_loop_no_response [of env s contentVectors 0 batch empty_result w2] st
  obtain rows where rows: "review_embeddings w3 = review_embeddings w2 @ rows"
    "\<forall>row\<in>set rows. re_response_vec row = None"
    by (auto simp: storeVectors_def)
  have "snd (processBatch env s batch w) = w3" unfolding pb st by (cases ob) simp_all
  with rows u show "\<exists>rows. review_embeddings (snd (processBatch env s batch w)) = review_embeddings w @ rows
           \<and> (\<forall>row\<in>set rows. re_response_vec row = None)"
    by auto
qed

lemma processReviewsInBatches_loop_failed_step:
  assumes "i < length reviews"
    and "pb (slice reviews i (min (i + B) (length reviews))) w = (Return (batchResult, Some err), w1)"
  shows "processReviewsInBatches_loop pb B reviews i result w
    = processReviewsInBatches_loop pb B reviews (i + B)
        (result\<lparr>Failed := Failed result + length (slice reviews i (min (i + B) (length reviews)))\<rparr>) w1"
  using assms by (subst processReviewsInBatches_loop.simps) (simp add: Let_def)

subsection \<open>The page loop\<close>

lemma processReviewsInBatches_loop_terminates:
  assumes B: "0 < B"
  shows "\<exists>r. processReviewsInBatches_loop pb B reviews i result w = Some r"
proof (induction "length reviews - i" arbitrary: i result w rule: less_induct)
  case less
  show ?case
  proof (cases "i < length reviews")
    case False
    then show ?thesis by (subst processReviewsInBatches_loop.simps) simp
  next
    case True
    define batch where "batch = slice reviews i (min (i + B) (length reviews))"
    obtain ob w1 where pb: "pb batch w = (ob, w1)" by (cases "pb batch w")
    from True B have m: "length reviews - (i + B) < length reviews - i" by arith
    show ?thesis
    proof (cases ob)
      case (Panic p)
      with True pb show ?thesis
        by (subst processReviewsInBatches_loop.simps) (simp add: Let_def batch_def [symmetric])
    next
      case (Return r)
      obtain batchResult err where r: "r = (batchResult, err)" by (cases r)
      show ?thesis
      proof (cases err)
        case None
        from less [OF m, of "add_result result batchResult" w1] True pb Return r None show ?thesis
          by (subst processReviewsInBatches_loop.simps) (simp add: Let_def batch_def [symmetric])
      next
        case (Some e)
        from less [OF m, of "result\<lparr>Failed := Failed result + length batch\<rparr>" w1] True pb Return r Some
        show ?thesis
          by (subst processReviewsInBatches_loop.simps) (simp add: Let_def batch_def [symmetric])
      qed
    qed
  qed
qed

lemma GetCleanReviewsForVectorization_result:
  "fst (GetCleanReviewsForVectorization env filters limit offset w)
     = (case query_fault env (length (queries w)) of
          Some err \<Rightarrow> ([], Some err)
        | None \<Rightarrow> (map scan_row (take limit (drop offset (eligible env filters w))), None))"
  by (cases "query_fault env (length (queries w))")
     (simp_all add: GetCleanReviewsForVectorization_def Let_def)

lemma length_eligible: "length (eligible env filters w) \<le> length (clean_reviews env)"
  by (simp add: eligible_def)

lemma eligible_force:
  "ForceRecompute filters \<Longrightarrow> eligible env filters w = eligible env filters w'"
proof -
  assume "ForceRecompute filters"
  then have "where_clause env filters (review_embeddings w) = where_clause env filters (review_embeddings w')"
    by (intro ext) (simp add: where_clause_def)
  then show ?thesis by (simp add: eligible_def)
qed

lemma processAllReviews_loop_terminates:
  assumes B: "0 < BatchSize (Vectorizer (s_cfg s))"
  shows "\<exists>r. processAllReviews_loop env s filters P offset result w = Some r"
proof (induction "length (clean_reviews env) - offset" arbitrary: offset result w rule: less_induct)
  case less
  obtain reviews err w1 where f: "GetCleanReviewsForVectorization env filters P offset w = ((reviews, err), w1)"
    by (cases "GetCleanReviewsForVectorization env filters P offset w") auto
  show ?case
  proof (cases err)
    case (Some e)
    with f show ?thesis by (subst processAllReviews_loop.simps) simp
  next
    case None
    with f have rv: "reviews = map scan_row (take P (drop offset (eligible env filters w)))"
      using GetCleanReviewsForVectorization_result [of env filters P offset w]
      by (cases "query_fault env (length (queries w))") auto
    show ?thesis
    proof (cases "reviews = []")
      case True
      with f None show ?thesis by (subst processAllReviews_loop.simps) simp
    next
      case False
      have "\<exists>r. processReviewsInBatches_loop (processBatch env s) (BatchSize (Vectorizer (s_cfg s)))
                reviews 0 empty_result w1 = Some r"
        by (rule processReviewsInBatches_loop_terminates [OF B])
      then obtain r where "processReviewsInBatches env s reviews w1 = Some r"
        unfolding processReviewsInBatches_def by blast
      then obtain ob w2 where p: "processReviewsInBatches env s reviews w1 = Some (ob, w2)"
        by (cases r) auto
      show ?thesis
      proof (cases ob)
        case (Panic x)
        with f None False p show ?thesis by (subst processAllReviews_loop.simps) simp
      next
        case (Return batchResult)
        show ?thesis
        proof (cases "length reviews < P \<or> ctx_done env (length (queries w2))")
          case True
          with f None False p Return show ?thesis
            by (subst processAllReviews_loop.simps) (auto simp: Let_def)
        next
          case nc: False
          from False rv have "offset < length (eligible env filters w)" by auto
          with length_eligible [of env filters w] have o: "offset < length (clean_reviews env)" by simp
          from False rv have "0 < P" by (cases P) auto
          with o have m: "length (clean_reviews env) - (offset + P) < length (clean_reviews env) - offset"
            by arith
          from less [OF m, of "add_result result batchResult" w2] f None False p Return nc
          show ?thesis by (subst processAllReviews_loop.simps) (simp add: Let_def)
        qed
      qed
    qed
  qed
qed

lemma pages_done_loop:
  "pages_done env s filters P w0 k = Some (result, w) \<Longrightarrow>
     processAllReviews_loop env s filters P 0 empty_result w0
       = processAllReviews_loop env s filters P (k * P) result w"
proof (induction k arbitrary: result w)
  case 0
  then show ?case by simp
next
  case (Suc k)
  from Suc.prems obtain result0 wk where pk: "pages_done env s filters P w0 k = Some (result0, wk)"
    by (cases "pages_done env s filters P w0 k") auto
  obtain reviews err w1 where f: "GetCleanReviewsForVectorization env filters P (k * P) wk = ((reviews, err), w1)"
    by (cases "GetCleanReviewsForVectorization env filters P (k * P) wk") auto
  from Suc.prems pk f have e: "err = None" and ne: "reviews \<noteq> []"
    by (cases err; auto split: if_splits)+
  from Suc.prems pk f e ne obtain batchResult where
    p: "processReviewsInBatches env s reviews w1 = Some (Return batchResult, w)"
    and c: "\<not> (length reviews < P \<or> ctx_done env (length (queries w)))"
    and r: "result = add_result result0 batchResult"
    by (auto split: option.splits outcome.splits if_splits)
  have "processAllReviews_loop env s filters P (k * P) result0 wk
      = processAllReviews_loop env s filters P (k * P + P) result w"
    using f e ne p c r by (subst processAllReviews_loop.simps) (simp add: Let_def)
  with Suc.IH [OF pk] show ?case by (simp add: add.commute)
qed

lemma processAllReviews_loop_queries:
  fixes env :: "('d, 'f) env" and w :: "'f world"
  assumes run: "processAllReviews_loop env s filters P offset result w = Some (Return (res, None), w1)"
    and force: "ForceRecompute filters" and P: "0 < P"
  shows "queries w1 = queries w
           @ map (\<lambda>k. (P, offset + k * P)) [0..<(length (eligible env filters w) - offset) div P + 1]"
proof -
  define C where "C = length (eligible env filters w)"
  have C: "length (eligible env filters w') = C" for w' :: "'f world"
    unfolding C_def using eligible_force [OF force] by metis
  let ?Q = "\<lambda>env' s' filters' P' (offset :: nat) (result :: VectorizeResult) (w :: 'f world)
              (y :: (VectorizeResult \<times> error option) outcome \<times> 'f world).
              env' = env \<and> s' = s \<and> filters' = filters \<and> P' = P \<longrightarrow>
              (\<forall>res. fst y = Return (res, None) \<longrightarrow>
                 queries (snd y) = queries w @ map (\<lambda>k. (P, offset + k * P)) [0..<(C - offset) div P + 1])"
  have "?Q env s filters P offset result w (Return (res, None :: error option), w1)"
  proof (rule processAllReviews_loop.raw_induct [where P = ?Q, OF _ run], goal_cases)
    case (1 lp env' s' filters' P' offset result w y)
    show ?case
    proof (intro impI allI)
      fix res
      assume eq: "env' = env \<and> s' = s \<and> filters' = filters \<and> P' = P" and y: "fst y = Return (res, None)"
      obtain reviews err wa where f: "GetCleanReviewsForVectorization env filters P offset w = ((reviews, err), wa)"
        by (cases "GetCleanReviewsForVectorization env filters P offset w") auto
      have wa: "wa = w\<lparr>queries := queries w @ [(P, offset)]\<rparr>"
        using GetCleanReviewsForVectorization_world [of env filters P offset w] f by simp
      note body = 1(2) [unfolded eq [THEN conjunct1] eq [THEN conjunct2, THEN conjunct1]
          eq [THEN conjunct2, THEN conjunct2, THEN conjunct1]
          eq [THEN conjunct2, THEN conjunct2, THEN conjunct2]]
      show "queries (snd y) = queries w @ map (\<lambda>k. (P, offset + k * P)) [0..<(C - offset) div P + 1]"
      proof (cases err)
        case (Some e)
        with body f y show ?thesis by auto
      next
        case None
        with f have rv: "reviews = map scan_row (take P (drop offset (eligible env filters w)))"
          using GetCleanReviewsForVectorization_result [of env filters P offset w]
          by (cases "query_fault env (length (queries w))") auto
        then have len: "length reviews = min P (C - offset)" by (simp add: C)
        show ?thesis
        proof (cases "reviews = []")
          case True
          with len P have "C - offset = 0" by (simp add: min_def split: if_splits)
          moreover from body f None True have "snd y = wa" by auto
          ultimately show ?thesis using wa by simp
        next
          case False
          show ?thesis
          proof (cases "processReviewsInBatches env s reviews wa")
            case N: None
            with body f None False show ?thesis by simp
          next
            case (Some p)
            obtain ob wb where p: "p = (ob, wb)" by (cases p)
            from Some p have "store_grows wa wb" using processReviewsInBatches_grows by blast
            then have qb: "queries wb = queries w @ [(P, offset)]" using wa by (simp add: store_grows_def)
            show ?thesis
            proof (cases ob)
              case (Panic x)
              with body f None False Some p y show ?thesis by auto
            next
              case (Return batchResult)
              show ?thesis
              proof (cases "length reviews < P")
                case True
                with len have "(C - offset) div P = 0" by (simp add: min_def split: if_splits)
                moreover from body f None False Some p Return True have "snd y = wb" by (auto simp: Let_def)
                ultimately show ?thesis using qb by simp
              next
                case full: False
                show ?thesis
                proof (cases "ctx_done env (length (queries wb))")
                  case True
                  with body f None False Some p Return full y show ?thesis by (auto simp: Let_def)
                next
                  case False
                  with body f None \<open>reviews \<noteq> []\<close> Some p Return full
                  have "lp env s filters P (offset + P) (add_result result batchResult) wb = Some y"
                    by (auto simp: Let_def)
                  from 1(1) [OF this] y
                  have ih: "queries (snd y) = queries wb
                      @ map (\<lambda>k. (P, offset + P + k * P)) [0..<(C - (offset + P)) div P + 1]"
                    by simp
                  from full len have le: "P \<le> C - offset" by (simp add: min_def split: if_splits)
                  with P have d: "(C - offset) div P = Suc ((C - (offset + P)) div P)"
                    by (simp add: le_div_geq)
                  have "map (\<lambda>k. (P, offset + k * P)) [0..<Suc (Suc ((C - (offset + P)) div P))]
                      = (P, offset) # map (\<lambda>k. (P, offset + P + k * P)) [0..<Suc ((C - (offset + P)) div P)]"
                    by (subst map_upt_Suc) (simp add: add.assoc)
                  with ih qb d show ?thesis by simp
                qed
              qed
            qed
          qed
        qed
      qed
    qed
  qed
  then show ?thesis by (simp add: C_def)
qed

lemma div_add_multiple: "0 < P \<Longrightarrow> (a + q * P) div P = a div P + q" for a q P :: nat
  by simp

lemma ceil_div_not_dvd:
  fixes C P :: nat
  assumes "0 < P" and "\<not> P dvd C"
  shows "(C + P - 1) div P = C div P + 1"
proof -
  let ?r = "C mod P"
  from assms have r: "0 < ?r" "?r < P" by (auto simp: dvd_eq_mod_eq_0)
  have "C = ?r + C div P * P" by simp
  then have e: "C + P - 1 = (?r + P - 1) + C div P * P" using r by arith
  have "(C + P - 1) div P = ((?r + P - 1) + C div P * P) div P" by (simp only: e)
  also have "\<dots> = (?r + P - 1) div P + C div P" using assms(1) by (rule div_add_multiple)
  finally have "(C + P - 1) div P = (?r + P - 1) div P + C div P" .
  moreover have "(?r + P - 1) div P = 1"
    using r by (intro div_nat_eqI) simp_all
  ultimately show ?thesis by simp
qed

lemma processAllReviews_loop_empty_page:
  assumes "GetCleanReviewsForVectorization env filters P offset w = (([], None), w1)"
  shows "processAllReviews_loop env s filters P offset acc w = Some (Return (acc, None), w1)"
  using assms by (subst processAllReviews_loop.simps) simp

lemma processAllReviews_loop_short_page:
  assumes "GetCleanReviewsForVectorization env filters P offset w = ((reviews, None), w1)"
    and "reviews \<noteq> []" and "length reviews < P"
    and "processReviewsInBatches env s reviews w1 = Some (Return batchResult, w2)"
  shows "processAllReviews_loop env s filters P offset acc w
           = Some (Return (add_result acc batchResult, None), w2)"
  using assms by (subst processAllReviews_loop.simps) (simp add: Let_def)

lemma processAllReviews_loop_cancelled:
  assumes "GetCleanReviewsForVectorization env filters P offset w = ((reviews, None), w1)"
    and "reviews \<noteq> []" and "\<not> length reviews < P"
    and "processReviewsInBatches env s reviews w1 = Some (Return batchResult, w2)"
    and "ctx_done env (length (queries w2))"
  shows "processAllReviews_loop env s filters P offset acc w
           = Some (Return (add_result acc batchResult, Some Canceled), w2)"
  using assms by (subst processAllReviews_loop.simps) (simp add: Let_def)

section \<open>The claims about the embedding providers\<close>

text \<open>
  C9. The fallback provider succeeds on every list of inputs, whatever their content, and
  returns exactly as many vectors as there are inputs, each of the configured dimension.
\<close>

theorem fallback_shape:
  "\<exists>vectors w1. StubEmbedder_EmbedBatch env dim inputs w = (Return (vectors, None), w1)
      \<and> length vectors = length inputs
      \<and> map length vectors = replicate (length inputs) dim"
proof (cases "inputs = []")
  case True
  then show ?thesis by (simp add: StubEmbedder_EmbedBatch_def)
next
  case False
  obtain vs w1 where v: "stub_vectors env dim inputs w = (vs, w1)"
    by (cases "stub_vectors env dim inputs w")
  from stub_vectors_shape [of env dim inputs w] v
  have m: "map length vs = replicate (length inputs) dim" by simp
  then have "length (map length vs) = length inputs" by simp
  then have "length vs = length inputs" by simp
  with m v False show ?thesis by (simp add: StubEmbedder_EmbedBatch_def)
qed

text \<open>
  C10. On the empty input list both providers (and the client's
  \<^verbatim>\<open>CreateEmbeddings\<close>) return no vectors and no error, without touching the world.
  The remote provider returns the error "no valid inputs after preprocessing" exactly when
  the input list is not empty and every element is rejected by the preprocessor.
\<close>

theorem empty_input_and_all_invalid:
  "OpenAIEmbedder_EmbedBatch env cfg [] w = (Return ([], None), w)
   \<and> StubEmbedder_EmbedBatch env dim [] w = (Return ([], None), w)
   \<and> CreateEmbeddings env cfg [] w = (Return ([], None), w)
   \<and> (fst (OpenAIEmbedder_EmbedBatch env cfg inputs w)
        = Return ([], Some (Errorf ''no valid inputs after preprocessing''))
      \<longleftrightarrow> inputs \<noteq> [] \<and> (\<forall>x\<in>set inputs. preprocessText x = []))"
proof -
  let ?p = "filter (\<lambda>processed. processed \<noteq> []) (map preprocessText inputs)"
  let ?e = "Return ([], Some (Errorf ''no valid inputs after preprocessing''))"
  have p: "?p = [] \<longleftrightarrow> (\<forall>x\<in>set inputs. preprocessText x = [])"
    by (auto simp: filter_empty_conv)
  obtain out w1 where c: "CreateEmbeddings env cfg ?p w = (out, w1)"
    by (cases "CreateEmbeddings env cfg ?p w")
  have ne: "fst (OpenAIEmbedder_EmbedBatch env cfg inputs w) \<noteq> ?e" if "inputs \<noteq> []" "?p \<noteq> []"
  proof (cases out)
    case (Panic p)
    with c that show ?thesis by (simp add: OpenAIEmbedder_EmbedBatch_def Let_def)
  next
    case (Return r)
    obtain vectors err where "r = (vectors, err)" by (cases r)
    with c Return that show ?thesis
      by (cases err) (simp_all add: OpenAIEmbedder_EmbedBatch_def Let_def)
  qed
  have "fst (OpenAIEmbedder_EmbedBatch env cfg inputs w) = ?e \<longleftrightarrow> inputs \<noteq> [] \<and> ?p = []"
  proof (cases "inputs = []")
    case True
    then show ?thesis by (simp add: OpenAIEmbedder_EmbedBatch_def)
  next
    case False
    show ?thesis
    proof (cases "?p = []")
      case True
      with False show ?thesis by (simp add: OpenAIEmbedder_EmbedBatch_def Let_def)
    next
      case np: False
      with False ne show ?thesis by blast
    qed
  qed
  with p show ?thesis
    by (simp add: OpenAIEmbedder_EmbedBatch_def StubEmbedder_EmbedBatch_def CreateEmbeddings_def)
qed

theorem empty_input_and_all_invalid_witness:
  "OpenAIEmbedder_EmbedBatch (demo_env (\<lambda>k. None) (\<lambda>k. False) []) demo_openai [] demo_world
     = (Return ([], None), demo_world)
   \<and> StubEmbedder_EmbedBatch (demo_env (\<lambda>k. None) (\<lambda>k. False) []) 8 [] demo_world
     = (Return ([], None), demo_world)
   \<and> preprocessText (ascii ''a'') = [] \<and> preprocessText (ascii ''   '') = []
   \<and> fst (OpenAIEmbedder_EmbedBatch (demo_env (\<lambda>k. None) (\<lambda>k. False) []) demo_openai
             [ascii ''a'', ascii ''   ''] demo_world)
     = Return ([], Some (Errorf ''no valid inputs after preprocessing''))"
proof -
  have a: "preprocessText (ascii ''a'') = []" and b: "preprocessText (ascii ''   '') = []"
    by code_simp+
  then have h: "[ascii ''a'', ascii ''   ''] \<noteq> []
      \<and> (\<forall>x\<in>set [ascii ''a'', ascii ''   '']. preprocessText x = [])"
    by simp
  from empty_input_and_all_invalid
    [of "demo_env (\<lambda>k. None) (\<lambda>k. False) []" demo_openai demo_world 8 "[ascii ''a'', ascii ''   '']"]
    h a b
  show ?thesis by blast
qed

text \<open>
  C7, as amended: the length test of the preprocessor counts bytes. An input is rejected
  exactly when its normalised form (trimmed, inner whitespace collapsed to single spaces) is
  shorter than 3 bytes in UTF-8; the empty and the whitespace-only inputs are among them.
  Every text that the remote provider puts into a request is the normalised form of one of
  its inputs, is its own normal form and has at least 3 bytes, so no rejected input is ever
  part of a request. If the input list is not empty and every input is rejected, the
  provider returns the error "no valid inputs after preprocessing" and the world, the list
  of requests included, is unchanged.
\<close>

theorem preprocessing_rejection:
  "preprocessText [] = []
   \<and> ((\<forall>r\<in>set x. IsSpace r) \<longrightarrow> preprocessText x = [])
   \<and> (preprocessText x = [] \<longleftrightarrow> go_len (Join (Fields (TrimSpace x)) [0x20]) < 3)
   \<and> (\<exists>new. snd (OpenAIEmbedder_EmbedBatch env cfg inputs w) = w\<lparr>requests := requests w @ new\<rparr>
        \<and> (\<forall>r\<in>set new. \<forall>t\<in>set (Input r).
              t \<in> preprocessText ` set inputs \<and> preprocessText t = t \<and> 3 \<le> go_len t)
        \<and> (\<forall>r\<in>set new. \<forall>x\<in>set inputs. preprocessText x = [] \<longrightarrow> x \<notin> set (Input r)))
   \<and> (inputs \<noteq> [] \<and> (\<forall>x\<in>set inputs. preprocessText x = []) \<longrightarrow>
        OpenAIEmbedder_EmbedBatch env cfg inputs w
          = (Return ([], Some (Errorf ''no valid inputs after preprocessing'')), w))"
proof -
  have 1: "preprocessText [] = []" using preprocessText_all_space [of "[]"] by simp
  have 2: "(\<forall>r\<in>set x. IsSpace r) \<longrightarrow> preprocessText x = []"
    using preprocessText_all_space by blast
  note 3 = preprocessText_empty_iff [of x]
  from OpenAIEmbedder_EmbedBatch_sends [of inputs w env cfg]
  obtain new where new: "snd (OpenAIEmbedder_EmbedBatch env cfg inputs w) = w\<lparr>requests := requests w @ new\<rparr>"
    and sub: "\<forall>r\<in>set new. set (Input r) \<subseteq> {t \<in> preprocessText ` set inputs. t \<noteq> []}"
    unfolding sends_def by blast
  have valid: "t \<in> preprocessText ` set inputs \<and> preprocessText t = t \<and> 3 \<le> go_len t"
    if "r \<in> set new" "t \<in> set (Input r)" for r t
  proof -
    from sub that obtain y where y: "y \<in> set inputs" "t = preprocessText y" "t \<noteq> []" by blast
    then show ?thesis using preprocessText_idem [of y] preprocessText_go_len [of y] by auto
  qed
  have absent: "x \<notin> set (Input r)" if "r \<in> set new" "x \<in> set inputs" "preprocessText x = []" for r x
  proof
    assume "x \<in> set (Input r)"
    with valid [OF that(1)] have "preprocessText x = x" "3 \<le> go_len x" by blast+
    with that(3) show False by (simp add: go_len_def)
  qed
  have 5: "inputs \<noteq> [] \<and> (\<forall>x\<in>set inputs. preprocessText x = []) \<longrightarrow>
        OpenAIEmbedder_EmbedBatch env cfg inputs w
          = (Return ([], Some (Errorf ''no valid inputs after preprocessing'')), w)"
    by (simp add: OpenAIEmbedder_EmbedBatch_def Let_def filter_empty_conv)
  from new valid absent have 4: "\<exists>new. snd (OpenAIEmbedder_EmbedBatch env cfg inputs w) = w\<lparr>requests := requests w @ new\<rparr>
        \<and> (\<forall>r\<in>set new. \<forall>t\<in>set (Input r).
              t \<in> preprocessText ` set inputs \<and> preprocessText t = t \<and> 3 \<le> go_len t)
        \<and> (\<forall>r\<in>set new. \<forall>x\<in>set inputs. preprocessText x = [] \<longrightarrow> x \<notin> set (Input r))"
    by blast
  from 1 2 3 4 5 show ?thesis by blast
qed

theorem preprocessing_rejection_witness:
  "list_all IsSpace (ascii ''  '') \<and> preprocessText (ascii ''  '') = []
   \<and> list_all (\<lambda>x. preprocessText x = []) [ascii ''a'', ascii ''  '']
   \<and> OpenAIEmbedder_EmbedBatch (demo_env (\<lambda>k. None) (\<lambda>k. False) []) demo_openai
        [ascii ''a'', ascii ''  ''] demo_world
      = (Return ([], Some (Errorf ''no valid inputs after preprocessing'')), demo_world)"
proof -
  have h1: "\<forall>r\<in>set (ascii ''  ''). IsSpace r" by code_simp
  have h2: "[ascii ''a'', ascii ''  ''] \<noteq> [] \<and> (\<forall>x\<in>set [ascii ''a'', ascii ''  '']. preprocessText x = [])"
    by code_simp
  note inst = preprocessing_rejection
    [of "ascii ''  ''" "demo_env (\<lambda>k. None) (\<lambda>k. False) []" demo_openai "[ascii ''a'', ascii ''  '']" demo_world]
  from inst h1 have c1: "preprocessText (ascii ''  '') = []" by blast
  from inst h2 have c2: "OpenAIEmbedder_EmbedBatch (demo_env (\<lambda>k. None) (\<lambda>k. False) []) demo_openai
        [ascii ''a'', ascii ''  ''] demo_world
      = (Return ([], Some (Errorf ''no valid inputs after preprocessing'')), demo_world)" by blast
  from h1 have l1: "list_all IsSpace (ascii ''  '')" unfolding list_all_iff by blast
  from h2 have l2: "list_all (\<lambda>x. preprocessText x = []) [ascii ''a'', ascii ''  '']"
    unfolding list_all_iff by blast
  from l1 c1 l2 c2 show ?thesis by (intro conjI)
qed

text \<open>
  The claim as stated, with "shorter than 3 characters", fails: the text of two characters
  U+00E9 U+00E9 (4 bytes) passes the preprocessor and is sent to the provider.
\<close>

theorem preprocessing_counts_bytes_counterexample:
  "length [0xE9, 0xE9 :: rune] < 3
   \<and> preprocessText [0xE9, 0xE9] = [0xE9, 0xE9]
   \<and> requests (snd (OpenAIEmbedder_EmbedBatch (demo_env (\<lambda>k. None) (\<lambda>k. False) []) demo_openai
                      [[0xE9, 0xE9]] demo_world))
       = [\<lparr>Input = [[0xE9, 0xE9]], EmbeddingRequest.Model = ''text-embedding-3-small''\<rparr>]"
  by code_simp

text \<open>
  C2 does not hold of the remote provider: it drops the inputs that the preprocessor rejects
  and returns one vector per remaining input. For the inputs "a" and "hello world" and a
  provider that answers every text it is sent, the result has one vector, and the vector at
  position 0 is the one of the input at position 1. \<^verbatim>\<open>storeVectors\<close> reads the
  content vectors by the position of the review: for two reviews with these texts it stores
  the vector of the second text with the first review and then panics on the missing entry.
\<close>

theorem remote_embed_batch_drops_inputs:
  "OpenAIEmbedder_EmbedBatch (demo_env (\<lambda>k. None) (\<lambda>k. False) []) demo_openai
       [ascii ''a'', ascii ''hello world''] demo_world
     = (Return ([ascii ''hello world''], None),
        demo_world\<lparr>requests := [\<lparr>Input = [ascii ''hello world''],
                                   EmbeddingRequest.Model = ''text-embedding-3-small''\<rparr>]\<rparr>)
   \<and> fst (processBatch (demo_env (\<lambda>k. None) (\<lambda>k. False) [])
            (demo_service (OpenAIEmbedder demo_openai))
            [demo_review ''r1'' ''a'' None, demo_review ''r2'' ''hello world'' None] demo_world)
     = Panic ''index out of range''
   \<and> map (\<lambda>row. (re_review_id row, re_content_vec row))
       (review_embeddings (snd (processBatch (demo_env (\<lambda>k. None) (\<lambda>k. False) [])
            (demo_service (OpenAIEmbedder demo_openai))
            [demo_review ''r1'' ''a'' None, demo_review ''r2'' ''hello world'' None] demo_world)))
     = [(''r1'', ascii ''hello world'')]"
  by code_simp

section \<open>The claims about the assembler and the store\<close>

text \<open>
  C4. The insert of a vector whose review already has a row leaves the table as it is and,
  when the statement itself does not fail, reports success; an insert never changes or
  removes a row that is there; and review identities stay pairwise distinct, after one
  insert and after a whole run.
\<close>

theorem upsert_first_write_wins:
  "(ReviewID vector \<in> set (map re_review_id (review_embeddings w)) \<longrightarrow>
      review_embeddings (snd (UpsertEmbedding env vector w)) = review_embeddings w
      \<and> (exec_fault env (execs w) = None \<longrightarrow> fst (UpsertEmbedding env vector w) = None))
   \<and> (\<exists>rows. review_embeddings (snd (UpsertEmbedding env vector w)) = review_embeddings w @ rows)
   \<and> (distinct (map re_review_id (review_embeddings w)) \<longrightarrow>
        distinct (map re_review_id (review_embeddings (snd (UpsertEmbedding env vector w)))))
   \<and> (distinct (map re_review_id (review_embeddings w)) \<and> RunOnce env s req w = Some (out, w1) \<longrightarrow>
        distinct (map re_review_id (review_embeddings w1)))"
proof -
  have g: "store_grows w (snd (UpsertEmbedding env vector w))" by (rule UpsertEmbedding_grows)
  from g have 2: "\<exists>rows. review_embeddings (snd (UpsertEmbedding env vector w)) = review_embeddings w @ rows"
    by (simp add: store_grows_def)
  from g have 3: "distinct (map re_review_id (review_embeddings w)) \<longrightarrow>
        distinct (map re_review_id (review_embeddings (snd (UpsertEmbedding env vector w))))"
    by (simp add: store_grows_def)
  from 2 3 UpsertEmbedding_existing [of vector w env] RunOnce_distinct [of env s req w out w1]
  show ?thesis by blast
qed

theorem upsert_first_write_wins_witness:
  "ReviewID demo_vector \<in> set (map re_review_id [demo_stored])
   \<and> distinct (map re_review_id [demo_stored])
   \<and> UpsertEmbedding (demo_env (\<lambda>k. None) (\<lambda>k. False) demo_rows) demo_vector
        (demo_world\<lparr>review_embeddings := [demo_stored]\<rparr>)
      = (None, demo_world\<lparr>execs := 1, review_embeddings := [demo_stored]\<rparr>)
   \<and> RunOnce (demo_env (\<lambda>k. None) (\<lambda>k. False) demo_rows) (demo_service (StubEmbedder 2))
        (demo_request True 0) (demo_world\<lparr>review_embeddings := [demo_stored]\<rparr>) \<noteq> None
   \<and> distinct (map re_review_id (review_embeddings (snd (the
        (RunOnce (demo_env (\<lambda>k. None) (\<lambda>k. False) demo_rows) (demo_service (StubEmbedder 2))
           (demo_request True 0) (demo_world\<lparr>review_embeddings := [demo_stored]\<rparr>))))))"
proof -
  let ?env = "demo_env (\<lambda>k. None) (\<lambda>k. False) demo_rows"
  let ?w = "demo_world\<lparr>review_embeddings := [demo_stored]\<rparr>"
  let ?run = "RunOnce ?env (demo_service (StubEmbedder 2)) (demo_request True 0) ?w"
  have h1: "ReviewID demo_vector \<in> set (map re_review_id (review_embeddings ?w))" by code_simp
  have h2: "distinct (map re_review_id (review_embeddings ?w))" by code_simp
  have h3: "exec_fault ?env (execs ?w) = None" by code_simp
  have run: "?run \<noteq> None" by code_simp
  then obtain out w1 where r: "?run = Some (out, w1)" by (cases ?run) auto
  have up: "UpsertEmbedding ?env demo_vector ?w = (None, demo_world\<lparr>execs := 1, review_embeddings := [demo_stored]\<rparr>)"
    by code_simp
  from upsert_first_write_wins [of demo_vector ?w ?env "demo_service (StubEmbedder 2)" "demo_request True 0" out w1]
    h1 h2 h3 r
  have "distinct (map re_review_id (review_embeddings w1))" by blast
  with r have d: "distinct (map re_review_id (review_embeddings (snd (the ?run))))" by simp
  have h1': "ReviewID demo_vector \<in> set (map re_review_id [demo_stored])" using h1 by simp
  have h2': "distinct (map re_review_id [demo_stored])" using h2 by simp
  from h1' h2' up run d show ?thesis by (intro conjI)
qed

text \<open>
  C1 does not hold of the code: the response vectors are computed for the records with a
  non-empty response only, and \<^verbatim>\<open>createVector\<close> then reads that shorter list at the
  record's position in the sub-batch. For a sub-batch of two records, the first with an
  empty response and the second with the response "thanks", the one response vector is
  stored with the first record and the second record gets none.
\<close>

theorem response_vector_attached_by_position:
  "map (\<lambda>row. (re_review_id row, re_response_vec row))
     (review_embeddings (snd (processBatch (demo_env (\<lambda>k. None) (\<lambda>k. False) [])
        (demo_service (StubEmbedder 2))
        [demo_review ''r1'' ''good app'' (Some ''''), demo_review ''r2'' ''bad app'' (Some ''thanks'')]
        demo_world)))
   = [(''r1'', Some [4, 5]), (''r2'', None)]"
  by code_simp

section \<open>The claims about sub-batches and retries\<close>

text \<open>
  C8. With a sub-batch size \<open>B > 0\<close>, a page of \<open>N\<close> records has exactly
  \<open>\<lceil>N / B\<rceil>\<close> sub-batches: the k-th is the slice from \<open>k * B\<close> to
  \<open>min (k * B + B) N\<close>, their sizes add up to \<open>N\<close>, and joined in order they are the
  page. Whatever method \<open>pb\<close> the sub-batch loop calls, the loop returns, and what it
  returns is what calling \<open>pb\<close> on these sub-batches in order gives; this holds in
  particular for \<^verbatim>\<open>processReviewsInBatches\<close>, which calls
  \<^verbatim>\<open>processBatch\<close> with the configured sub-batch size. The log of the calls made is
  a prefix of the list of sub-batches, and the whole list whenever the loop returns a result:
  only a panic of \<open>pb\<close> keeps later sub-batches from being made.
\<close>

theorem batch_splitting_exact:
  assumes "0 < B"
  shows "length (sub_batches B reviews) = (length reviews + B - 1) div B
     \<and> (\<forall>k<length (sub_batches B reviews).
          sub_batches B reviews ! k = slice reviews (k * B) (min (k * B + B) (length reviews)))
     \<and> sum_list (map length (sub_batches B reviews)) = length reviews
     \<and> concat (sub_batches B reviews) = reviews
     \<and> processReviewsInBatches_loop pb B reviews 0 result w
         = Some (run_batches pb (sub_batches B reviews) result w)
     \<and> (BatchSize (Vectorizer (s_cfg s)) = B \<longrightarrow>
          processReviewsInBatches env s reviews ws
            = Some (run_batches (processBatch env s) (sub_batches B reviews) empty_result ws))
     \<and> (\<exists>k out w1.
          k \<le> length (sub_batches B reviews)
          \<and> processReviewsInBatches_loop pb B reviews 0 result w = Some (out, w1)
          \<and> processReviewsInBatches_loop (logged pb) B reviews 0 result ([], w)
              = Some (out, (take k (sub_batches B reviews), w1))
          \<and> (\<forall>r. out = Return r \<longrightarrow> k = length (sub_batches B reviews)))"
proof -
  let ?S = "sub_batches B reviews"
  have run: "processReviewsInBatches_loop pb' B reviews 0 result' w' = Some (run_batches pb' ?S result' w')"
    for pb' :: "CleanReview list \<Rightarrow> 'x \<Rightarrow> (VectorizeResult \<times> error option) outcome \<times> 'x"
      and result' w'
    using processReviewsInBatches_loop_run_batches [OF assms refl, of 0 reviews pb' result' w']
    by (simp add: sub_batches_def)
  have cc: "concat ?S = reviews" using assms by (rule concat_sub_batches_all)
  then have "length (concat ?S) = length reviews" by simp
  then have sm: "sum_list (map length ?S) = length reviews" by (simp only: length_concat)
  have ln: "length ?S = (length reviews + B - 1) div B" by (rule length_sub_batches)
  have nt: "\<forall>k<length ?S. ?S ! k = slice reviews (k * B) (min (k * B + B) (length reviews))"
    by (simp add: nth_sub_batches)
  have real: "BatchSize (Vectorizer (s_cfg s)) = B \<longrightarrow>
          processReviewsInBatches env s reviews ws
            = Some (run_batches (processBatch env s) ?S empty_result ws)"
    using run [of "processBatch env s" empty_result ws] by (simp add: processReviewsInBatches_def)
  from run_batches_logged [of ?S pb result "[]" w]
  obtain k where k: "k \<le> length ?S"
    "run_batches (logged pb) ?S result ([], w)
       = (fst (run_batches pb ?S result w), (take k ?S, snd (run_batches pb ?S result w)))"
    "\<forall>r. fst (run_batches pb ?S result w) = Return r \<longrightarrow> k = length ?S"
    by auto
  have lg: "\<exists>k out w1.
          k \<le> length ?S
          \<and> processReviewsInBatches_loop pb B reviews 0 result w = Some (out, w1)
          \<and> processReviewsInBatches_loop (logged pb) B reviews 0 result ([], w)
              = Some (out, (take k ?S, w1))
          \<and> (\<forall>r. out = Return r \<longrightarrow> k = length ?S)"
    using k run [of pb result w] run [of "logged pb" result "([], w)"]
    by (intro exI [of _ k] exI [of _ "fst (run_batches pb ?S result w)"]
          exI [of _ "snd (run_batches pb ?S result w)"]) simp
  from ln nt sm cc run [of pb result w] real lg show ?thesis by (intro conjI)
qed

theorem batch_splitting_exact_witness:
  "(0 :: nat) < 2
   \<and> BatchSize (Vectorizer (s_cfg (demo_service (StubEmbedder 2)))) = 2
   \<and> sub_batches 2 (demo_reviews 5)
       = [[demo_reviews 5 ! 0, demo_reviews 5 ! 1], [demo_reviews 5 ! 2, demo_reviews 5 ! 3],
          [demo_reviews 5 ! 4]]
   \<and> map_option fst (processReviewsInBatches (demo_env (\<lambda>k. None) (\<lambda>k. False) [])
        (demo_service (StubEmbedder 2)) (demo_reviews 5) demo_world)
       = Some (Return \<lparr>Processed = 5, Skipped = 0, Failed = 0,
                        ReviewIDs = [''r'', ''rr'', ''rrr'', ''rrrr'', ''rrrrr'']\<rparr>)
   \<and> map_option (\<lambda>r. fst (snd r))
        (processReviewsInBatches_loop
           (logged (processBatch (demo_env (\<lambda>k. None) (\<lambda>k. False) []) (demo_service (StubEmbedder 2))))
           2 (demo_reviews 5) 0 empty_result ([], demo_world))
       = Some [[demo_reviews 5 ! 0, demo_reviews 5 ! 1], [demo_reviews 5 ! 2, demo_reviews 5 ! 3],
               [demo_reviews 5 ! 4]]"
proof -
  let ?E = "demo_env (\<lambda>k. None) (\<lambda>k. False) []"
  let ?S = "demo_service (StubEmbedder 2)"
  let ?R = "demo_reviews 5"
  let ?B = "[[?R ! 0, ?R ! 1], [?R ! 2, ?R ! 3], [?R ! 4]]"
  let ?res = "\<lparr>Processed = 5, Skipped = 0, Failed = 0,
                        ReviewIDs = [''r'', ''rr'', ''rrr'', ''rrrr'', ''rrrrr'']\<rparr>"
  have h: "(0 :: nat) < 2" by simp
  have b: "BatchSize (Vectorizer (s_cfg ?S)) = 2" by (simp add: demo_service_def demo_config_def)
  have sb: "sub_batches 2 ?R = ?B" by code_simp
  note inst = batch_splitting_exact [OF h, of ?R "processBatch ?E ?S" empty_result demo_world ?S ?E demo_world]
  from inst b have real: "processReviewsInBatches ?E ?S ?R demo_world
      = Some (run_batches (processBatch ?E ?S) (sub_batches 2 ?R) empty_result demo_world)"
    by blast
  have ev: "map_option fst (processReviewsInBatches ?E ?S ?R demo_world) = Some (Return ?res)"
    by code_simp
  from inst obtain k out w1 where k:
    "processReviewsInBatches_loop (processBatch ?E ?S) 2 ?R 0 empty_result demo_world = Some (out, w1)"
    "processReviewsInBatches_loop (logged (processBatch ?E ?S)) 2 ?R 0 empty_result ([], demo_world)
       = Some (out, (take k (sub_batches 2 ?R), w1))"
    "\<forall>r. out = Return r \<longrightarrow> k = length (sub_batches 2 ?R)"
    by blast
  from k(1) b have "processReviewsInBatches ?E ?S ?R demo_world = Some (out, w1)"
    by (simp add: processReviewsInBatches_def)
  with ev have "out = Return ?res" by simp
  with k(3) have "k = length (sub_batches 2 ?R)" by blast
  with k(2) sb have lg: "map_option (\<lambda>r. fst (snd r))
        (processReviewsInBatches_loop (logged (processBatch ?E ?S)) 2 ?R 0 empty_result ([], demo_world))
       = Some ?B"
    by simp
  from h b sb ev lg show ?thesis by (intro conjI)
qed

text \<open>
  C6, as amended. A provider call whose every attempt fails is attempted exactly
  \<open>MaxRetries + 1\<close> times and returns the last attempt's error, wrapped; an attempt that
  succeeds ends the call at once, after \<open>k + 1\<close> requests if it is attempt \<open>k\<close>. The
  content texts of a sub-batch are sent in chunks of 10. When the call for any of these
  chunks fails at every attempt, after the calls for the chunks before it have succeeded, the
  sub-batch fails with that error, nothing of it is stored (only the list of requests
  grows), the failed count grows by the size of the sub-batch and the loop goes on with the
  next sub-batch. When the content texts have been embedded and the embedding of the response
  texts fails, the sub-batch does not fail: its records are stored with the content vectors
  and without response vectors, and the loop goes on with the result of storing them.
\<close>

theorem retry_bound_and_failed_sub_batch:
  "((\<forall>j\<le>MaxRetries cfg. respond env (length (requests w) + j)
        \<lparr>Input = texts, EmbeddingRequest.Model = OpenAIConfig.Model cfg\<rparr> = Inl (fail j)) \<longrightarrow>
      OpenAIClient_processBatch env cfg texts w
        = (Return ([], Some (Wrapf ''all retry attempts failed: %w'' [] (fail (MaxRetries cfg)))),
           w\<lparr>requests := requests w @ replicate (MaxRetries cfg + 1)
                \<lparr>Input = texts, EmbeddingRequest.Model = OpenAIConfig.Model cfg\<rparr>\<rparr>))
   \<and> (k \<le> MaxRetries cfg
        \<and> (\<forall>j<k. isl (respond env (length (requests w) + j)
              \<lparr>Input = texts, EmbeddingRequest.Model = OpenAIConfig.Model cfg\<rparr>))
        \<and> respond env (length (requests w) + k)
              \<lparr>Input = texts, EmbeddingRequest.Model = OpenAIConfig.Model cfg\<rparr> = Inr resp \<longrightarrow>
      OpenAIClient_processBatch env cfg texts w
        = (Return (map (\<lambda>embedding. map (float32 env) (Embedding embedding)) (Data resp), None),
           w\<lparr>requests := requests w @ replicate (k + 1)
                \<lparr>Input = texts, EmbeddingRequest.Model = OpenAIConfig.Model cfg\<rparr>\<rparr>))
   \<and> (s_embedder s = OpenAIEmbedder cfg
        \<and> i < length reviews
        \<and> batch = slice reviews i (min (i + B) (length reviews))
        \<and> valid = filter (\<lambda>processed. processed \<noteq> []) (map preprocessText (map ContentClean batch))
        \<and> chunks_done env cfg valid ws c = Some (allVectors, w)
        \<and> c * 10 < length valid
        \<and> texts = slice valid (c * 10) (min (c * 10 + 10) (length valid))
        \<and> (\<forall>j\<le>MaxRetries cfg. respond env (length (requests w) + j)
              \<lparr>Input = texts, EmbeddingRequest.Model = OpenAIConfig.Model cfg\<rparr> = Inl (fail j)) \<longrightarrow>
      processBatch env s batch ws
        = (Return (empty_result,
             Some (Wrapf ''failed to generate content embeddings: %w'' []
                    (Wrapf ''failed to generate embeddings: %w'' []
                      (Wrapf ''failed to process batch %d-%d: %w''
                         [Num (c * 10), Num (min (c * 10 + 10) (length valid))]
                        (Wrapf ''all retry attempts failed: %w'' [] (fail (MaxRetries cfg))))))),
           w\<lparr>requests := requests w @ replicate (MaxRetries cfg + 1)
                \<lparr>Input = texts, EmbeddingRequest.Model = OpenAIConfig.Model cfg\<rparr>\<rparr>)
      \<and> review_embeddings w = review_embeddings ws
      \<and> processReviewsInBatches_loop (processBatch env s) B reviews i result ws
        = processReviewsInBatches_loop (processBatch env s) B reviews (i + B)
            (result\<lparr>Failed := Failed result + length batch\<rparr>)
            (w\<lparr>requests := requests w @ replicate (MaxRetries cfg + 1)
                \<lparr>Input = texts, EmbeddingRequest.Model = OpenAIConfig.Model cfg\<rparr>\<rparr>))
   \<and> (i < length reviews
        \<and> batch = slice reviews i (min (i + B) (length reviews))
        \<and> EmbedBatch env (s_embedder s) (fst (prepareTexts batch)) ws = (Return (contentVectors, None), wc)
        \<and> filterNonEmptyResponses (snd (prepareTexts batch)) \<noteq> []
        \<and> EmbedBatch env (s_embedder s) (filterNonEmptyResponses (snd (prepareTexts batch))) wc
            = (Return (responseVectors, Some err), wr) \<longrightarrow>
      processBatch env s batch ws
        = (case storeVectors env s batch contentVectors [] wr of
             (Panic p, wt) \<Rightarrow> (Panic p, wt)
           | (Return batchResult, wt) \<Rightarrow> (Return (batchResult, None), wt))
      \<and> (\<exists>rows. review_embeddings (snd (processBatch env s batch ws)) = review_embeddings ws @ rows
            \<and> (\<forall>row\<in>set rows. re_response_vec row = None))
      \<and> (\<forall>batchResult wt. storeVectors env s batch contentVectors [] wr = (Return batchResult, wt) \<longrightarrow>
            processReviewsInBatches_loop (processBatch env s) B reviews i result ws
              = processReviewsInBatches_loop (processBatch env s) B reviews (i + B)
                  (add_result result batchResult) wt))"
proof (intro conjI impI)
  assume "\<forall>j\<le>MaxRetries cfg. respond env (length (requests w) + j)
        \<lparr>Input = texts, EmbeddingRequest.Model = OpenAIConfig.Model cfg\<rparr> = Inl (fail j)"
  then show "OpenAIClient_processBatch env cfg texts w
        = (Return ([], Some (Wrapf ''all retry attempts failed: %w'' [] (fail (MaxRetries cfg)))),
           w\<lparr>requests := requests w @ replicate (MaxRetries cfg + 1)
                \<lparr>Input = texts, EmbeddingRequest.Model = OpenAIConfig.Model cfg\<rparr>\<rparr>)"
    by (rule OpenAIClient_processBatch_all_fail)
next
  assume "k \<le> MaxRetries cfg
        \<and> (\<forall>j<k. isl (respond env (length (requests w) + j)
              \<lparr>Input = texts, EmbeddingRequest.Model = OpenAIConfig.Model cfg\<rparr>))
        \<and> respond env (length (requests w) + k)
              \<lparr>Input = texts, EmbeddingRequest.Model = OpenAIConfig.Model cfg\<rparr> = Inr resp"
  then show "OpenAIClient_processBatch env cfg texts w
        = (Return (map (\<lambda>embedding. map (float32 env) (Embedding embedding)) (Data resp), None),
           w\<lparr>requests := requests w @ replicate (k + 1)
                \<lparr>Input = texts, EmbeddingRequest.Model = OpenAIConfig.Model cfg\<rparr>\<rparr>)"
    using OpenAIClient_processBatch_success [of k cfg env w texts resp] by blast
next
  assume a: "s_embedder s = OpenAIEmbedder cfg
        \<and> i < length reviews
        \<and> batch = slice reviews i (min (i + B) (length reviews))
        \<and> valid = filter (\<lambda>processed. processed \<noteq> []) (map preprocessText (map ContentClean batch))
        \<and> chunks_done env cfg valid ws c = Some (allVectors, w)
        \<and> c * 10 < length valid
        \<and> texts = slice valid (c * 10) (min (c * 10 + 10) (length valid))
        \<and> (\<forall>j\<le>MaxRetries cfg. respond env (length (requests w) + j)
              \<lparr>Input = texts, EmbeddingRequest.Model = OpenAIConfig.Model cfg\<rparr> = Inl (fail j))"
  then have a1: "s_embedder s = OpenAIEmbedder cfg"
    and i: "i < length reviews"
    and b: "batch = slice reviews i (min (i + B) (length reviews))"
    and a4: "valid = filter (\<lambda>processed. processed \<noteq> []) (map preprocessText (map ContentClean batch))"
    and a5: "chunks_done env cfg valid ws c = Some (allVectors, w)"
    and a6: "c * 10 < length valid"
    and a7: "texts = slice valid (c * 10) (min (c * 10 + 10) (length valid))"
    and a8: "\<forall>j\<le>MaxRetries cfg. respond env (length (requests w) + j)
              \<lparr>Input = texts, EmbeddingRequest.Model = OpenAIConfig.Model cfg\<rparr> = Inl (fail j)"
    by blast+
  show pb: "processBatch env s batch ws
        = (Return (empty_result,
             Some (Wrapf ''failed to generate content embeddings: %w'' []
                    (Wrapf ''failed to generate embeddings: %w'' []
                      (Wrapf ''failed to process batch %d-%d: %w''
                         [Num (c * 10), Num (min (c * 10 + 10) (length valid))]
                        (Wrapf ''all retry attempts failed: %w'' [] (fail (MaxRetries cfg))))))),
           w\<lparr>requests := requests w @ replicate (MaxRetries cfg + 1)
                \<lparr>Input = texts, EmbeddingRequest.Model = OpenAIConfig.Model cfg\<rparr>\<rparr>)"
    by (rule processBatch_content_call_fails [OF a1 a4 a5 a6 a7 a8])
  show "review_embeddings w = review_embeddings ws"
    using chunks_done_store [OF a5] by (simp add: store_unchanged_def)
  from pb b show "processReviewsInBatches_loop (processBatch env s) B reviews i result ws
        = processReviewsInBatches_loop (processBatch env s) B reviews (i + B)
            (result\<lparr>Failed := Failed result + length batch\<rparr>)
            (w\<lparr>requests := requests w @ replicate (MaxRetries cfg + 1)
                \<lparr>Input = texts, EmbeddingRequest.Model = OpenAIConfig.Model cfg\<rparr>\<rparr>)"
    using processReviewsInBatches_loop_failed_step [OF i, of "processBatch env s" B ws empty_result _ _ result]
    by simp
next
  assume a: "i < length reviews
        \<and> batch = slice reviews i (min (i + B) (length reviews))
        \<and> EmbedBatch env (s_embedder s) (fst (prepareTexts batch)) ws = (Return (contentVectors, None), wc)
        \<and> filterNonEmptyResponses (snd (prepareTexts batch)) \<noteq> []
        \<and> EmbedBatch env (s_embedder s) (filterNonEmptyResponses (snd (prepareTexts batch))) wc
            = (Return (responseVectors, Some err), wr)"
  then have i: "i < length reviews"
    and b: "batch = slice reviews i (min (i + B) (length reviews))"
    and c: "EmbedBatch env (s_embedder s) (fst (prepareTexts batch)) ws = (Return (contentVectors, None), wc)"
    and r: "filterNonEmptyResponses (snd (prepareTexts batch)) \<noteq> []"
    and f: "EmbedBatch env (s_embedder s) (filterNonEmptyResponses (snd (prepareTexts batch))) wc
            = (Return (responseVectors, Some err), wr)"
    by blast+
  from r have ne: "batch \<noteq> []" by (auto simp: prepareTexts_def filterNonEmptyResponses_def)
  show pb: "processBatch env s batch ws
        = (case storeVectors env s batch contentVectors [] wr of
             (Panic p, wt) \<Rightarrow> (Panic p, wt)
           | (Return batchResult, wt) \<Rightarrow> (Return (batchResult, None), wt))"
    by (rule processBatch_response_call_fails(2) [OF ne c r f])
  show "\<exists>rows. review_embeddings (snd (processBatch env s batch ws)) = review_embeddings ws @ rows
            \<and> (\<forall>row\<in>set rows. re_response_vec row = None)"
    by (rule processBatch_response_call_fails(3) [OF ne c r f])
  show "\<forall>batchResult wt. storeVectors env s batch contentVectors [] wr = (Return batchResult, wt) \<longrightarrow>
            processReviewsInBatches_loop (processBatch env s) B reviews i result ws
              = processReviewsInBatches_loop (processBatch env s) B reviews (i + B)
                  (add_result result batchResult) wt"
  proof (intro allI impI)
    fix batchResult wt
    assume st: "storeVectors env s batch contentVectors [] wr = (Return batchResult, wt)"
    with pb have "processBatch env s batch ws = (Return (batchResult, None), wt)" by simp
    with i b show "processReviewsInBatches_loop (processBatch env s) B reviews i result ws
              = processReviewsInBatches_loop (processBatch env s) B reviews (i + B)
                  (add_result result batchResult) wt"
      by (subst processReviewsInBatches_loop.simps) (simp add: Let_def)
  qed
qed

theorem retry_bound_and_failed_sub_batch_witness:
  "OpenAIClient_processBatch
       (demo_env (\<lambda>k. if k < 2 then Some (Errorf ''HTTP 500'') else None) (\<lambda>k. False) [])
       demo_openai [ascii ''good app''] demo_world
     = (Return ([ascii ''good app''], None),
        demo_world\<lparr>requests := replicate 3 \<lparr>Input = [ascii ''good app''],
                                              EmbeddingRequest.Model = ''text-embedding-3-small''\<rparr>\<rparr>)
   \<and> processBatch
       (demo_env (\<lambda>k. if k = 0 then None else if k < 3 then Some (Errorf ''HTTP 500'')
                      else if k = 3 then Some (Errorf ''HTTP 503'') else None) (\<lambda>k. False) [])
       (demo_service (OpenAIEmbedder demo_openai)) (demo_reviews 11) demo_world
     = (Return (empty_result,
          Some (Wrapf ''failed to generate content embeddings: %w'' []
                 (Wrapf ''failed to generate embeddings: %w'' []
                   (Wrapf ''failed to process batch %d-%d: %w'' [Num 10, Num 11]
                     (Wrapf ''all retry attempts failed: %w'' [] (Errorf ''HTTP 503'')))))),
        demo_world\<lparr>requests :=
          \<lparr>Input = replicate 10 (ascii ''good app''), EmbeddingRequest.Model = ''text-embedding-3-small''\<rparr>
          # replicate 3 \<lparr>Input = [ascii ''good app''],
                           EmbeddingRequest.Model = ''text-embedding-3-small''\<rparr>\<rparr>)
   \<and> fst (the (processReviewsInBatches_loop
       (processBatch
          (demo_env (\<lambda>k. if k = 0 then None else if k < 3 then Some (Errorf ''HTTP 500'')
                         else if k = 3 then Some (Errorf ''HTTP 503'') else None) (\<lambda>k. False) [])
          (demo_service (OpenAIEmbedder demo_openai)))
       11 (demo_reviews 12) 0 empty_result demo_world))
     = Return \<lparr>Processed = 1, Skipped = 0, Failed = 11, ReviewIDs = [''rrrrrrrrrrrr'']\<rparr>
   \<and> fst (processBatch (demo_env (\<lambda>k. if 1 \<le> k then Some (Errorf ''HTTP 500'') else None) (\<lambda>k. False) [])
          (demo_service (OpenAIEmbedder demo_openai))
          [demo_review ''r1'' ''good app'' (Some ''thanks'')] demo_world)
     = Return (\<lparr>Processed = 1, Skipped = 0, Failed = 0, ReviewIDs = [''r1'']\<rparr>, None)
   \<and> fst (the (processReviewsInBatches_loop
       (processBatch (demo_env (\<lambda>k. if 1 \<le> k then Some (Errorf ''HTTP 500'') else None) (\<lambda>k. False) [])
          (demo_service (OpenAIEmbedder demo_openai)))
       1 [demo_review ''r1'' ''good app'' (Some ''thanks'')] 0 empty_result demo_world))
     = Return \<lparr>Processed = 1, Skipped = 0, Failed = 0, ReviewIDs = [''r1'']\<rparr>"
proof -
  let ?E2 = "demo_env (\<lambda>k. if k < 2 then Some (Errorf ''HTTP 500'') else None) (\<lambda>k. False) []"
  let ?E1 = "demo_env (\<lambda>k. if k = 0 then None else if k < 3 then Some (Errorf ''HTTP 500'')
                      else if k = 3 then Some (Errorf ''HTTP 503'') else None) (\<lambda>k. False) []"
  let ?E3 = "demo_env (\<lambda>k. if 1 \<le> k then Some (Errorf ''HTTP 500'') else None) (\<lambda>k. False) []"
  let ?F = "\<lambda>j :: nat. if j < 2 then Errorf ''HTTP 500'' else Errorf ''HTTP 503''"
  let ?S = "demo_service (OpenAIEmbedder demo_openai)"
  let ?batch = "demo_reviews 11"
  let ?reviews = "demo_reviews 12"
  let ?valid = "replicate 11 (ascii ''good app'')"
  let ?texts = "[ascii ''good app'']"
  let ?resp = "\<lparr>Data = [\<lparr>Embedding = ascii ''good app'', Index = 0\<rparr>]\<rparr>"
  let ?req10 = "\<lparr>Input = replicate 10 (ascii ''good app''), EmbeddingRequest.Model = ''text-embedding-3-small''\<rparr>"
  let ?W1 = "demo_world\<lparr>requests := [?req10]\<rparr>"
  let ?W4 = "?W1\<lparr>requests := requests ?W1 @ replicate (MaxRetries demo_openai + 1)
                \<lparr>Input = ?texts, EmbeddingRequest.Model = OpenAIConfig.Model demo_openai\<rparr>\<rparr>"
  have m: "MaxRetries demo_openai = 2" "OpenAIConfig.Model demo_openai = ''text-embedding-3-small''"
    "requests demo_world = []"
    by (simp_all add: demo_openai_def demo_world_def)
  \<comment> \<open>the third attempt succeeds\<close>
  have b1: "(2 :: nat) \<le> MaxRetries demo_openai" by (simp add: m)
  have b2: "\<forall>j<2. isl (respond ?E2 (length (requests demo_world) + j)
              \<lparr>Input = [ascii ''good app''], EmbeddingRequest.Model = OpenAIConfig.Model demo_openai\<rparr>)"
    by (simp add: demo_env_def m)
  have b3: "respond ?E2 (length (requests demo_world) + 2)
              \<lparr>Input = [ascii ''good app''], EmbeddingRequest.Model = OpenAIConfig.Model demo_openai\<rparr> = Inr ?resp"
    by (simp add: demo_env_def m)
  from retry_bound_and_failed_sub_batch
    [where cfg = demo_openai and env = ?E2 and w = demo_world and texts = "[ascii ''good app'']"
       and k = 2 and resp = ?resp] b1 b2 b3
  have "OpenAIClient_processBatch ?E2 demo_openai [ascii ''good app''] demo_world
        = (Return (map (\<lambda>embedding. map (float32 ?E2) (Embedding embedding)) (Data ?resp), None),
           demo_world\<lparr>requests := requests demo_world @ replicate (2 + 1)
                \<lparr>Input = [ascii ''good app''], EmbeddingRequest.Model = OpenAIConfig.Model demo_openai\<rparr>\<rparr>)"
    by blast
  then have c1: "OpenAIClient_processBatch ?E2 demo_openai [ascii ''good app''] demo_world
     = (Return ([ascii ''good app''], None),
        demo_world\<lparr>requests := replicate 3 \<lparr>Input = [ascii ''good app''],
                                              EmbeddingRequest.Model = ''text-embedding-3-small''\<rparr>\<rparr>)"
    by (simp add: m demo_env_def)
  \<comment> \<open>the second chunk of the content call fails at every attempt\<close>
  have a1: "s_embedder ?S = OpenAIEmbedder demo_openai" by (simp add: demo_service_def)
  have a2: "0 < length ?reviews" by (simp add: demo_reviews_def)
  have a3: "?batch = slice ?reviews 0 (min (0 + 11) (length ?reviews))" by code_simp
  have a4: "?valid = filter (\<lambda>processed. processed \<noteq> []) (map preprocessText (map ContentClean ?batch))"
    by code_simp
  have a5: "chunks_done ?E1 demo_openai ?valid demo_world 1 = Some (replicate 10 (ascii ''good app''), ?W1)"
    by code_simp
  have a6: "1 * 10 < length ?valid" by simp
  have a7: "?texts = slice ?valid (1 * 10) (min (1 * 10 + 10) (length ?valid))" by code_simp
  have a8: "\<forall>j\<le>MaxRetries demo_openai. respond ?E1 (length (requests ?W1) + j)
              \<lparr>Input = ?texts, EmbeddingRequest.Model = OpenAIConfig.Model demo_openai\<rparr> = Inl (?F j)"
    by (simp add: demo_env_def m)
  note inst = retry_bound_and_failed_sub_batch
    [where cfg = demo_openai and env = ?E1 and w = ?W1 and texts = ?texts and fail = ?F and s = ?S
       and i = 0 and reviews = ?reviews and batch = ?batch and B = 11 and valid = ?valid
       and ws = demo_world and c = 1 and allVectors = "replicate 10 (ascii ''good app'')"
       and result = empty_result]
  from inst a1 a2 a3 a4 a5 a6 a7 a8
  have p: "processBatch ?E1 ?S ?batch demo_world
        = (Return (empty_result,
             Some (Wrapf ''failed to generate content embeddings: %w'' []
                    (Wrapf ''failed to generate embeddings: %w'' []
                      (Wrapf ''failed to process batch %d-%d: %w''
                         [Num (1 * 10), Num (min (1 * 10 + 10) (length ?valid))]
                        (Wrapf ''all retry attempts failed: %w'' [] (?F (MaxRetries demo_openai))))))),
           ?W4)"
    by blast
  from inst a1 a2 a3 a4 a5 a6 a7 a8
  have l: "processReviewsInBatches_loop (processBatch ?E1 ?S) 11 ?reviews 0 empty_result demo_world
        = processReviewsInBatches_loop (processBatch ?E1 ?S) 11 ?reviews (0 + 11)
            (empty_result\<lparr>Failed := Failed empty_result + length ?batch\<rparr>) ?W4"
    by blast
  from p have c2: "processBatch ?E1 ?S ?batch demo_world
     = (Return (empty_result,
          Some (Wrapf ''failed to generate content embeddings: %w'' []
                 (Wrapf ''failed to generate embeddings: %w'' []
                   (Wrapf ''failed to process batch %d-%d: %w'' [Num 10, Num 11]
                     (Wrapf ''all retry attempts failed: %w'' [] (Errorf ''HTTP 503'')))))),
        demo_world\<lparr>requests := ?req10 # replicate 3 \<lparr>Input = ?texts,
                           EmbeddingRequest.Model = ''text-embedding-3-small''\<rparr>\<rparr>)"
    by (simp add: m)
  have "fst (the (processReviewsInBatches_loop (processBatch ?E1 ?S) 11 ?reviews (0 + 11)
            (empty_result\<lparr>Failed := Failed empty_result + length ?batch\<rparr>) ?W4))
     = Return \<lparr>Processed = 1, Skipped = 0, Failed = 11, ReviewIDs = [''rrrrrrrrrrrr'']\<rparr>"
    by code_simp
  with l have c3: "fst (the (processReviewsInBatches_loop (processBatch ?E1 ?S) 11 ?reviews 0 empty_result demo_world))
     = Return \<lparr>Processed = 1, Skipped = 0, Failed = 11, ReviewIDs = [''rrrrrrrrrrrr'']\<rparr>"
    by simp
  \<comment> \<open>the call for the response texts fails at every attempt\<close>
  let ?one = "[demo_review ''r1'' ''good app'' (Some ''thanks'')]"
  let ?V1 = "demo_world\<lparr>requests := [\<lparr>Input = [ascii ''good app''],
                                         EmbeddingRequest.Model = ''text-embedding-3-small''\<rparr>]\<rparr>"
  let ?V4 = "demo_world\<lparr>requests := \<lparr>Input = [ascii ''good app''],
                                         EmbeddingRequest.Model = ''text-embedding-3-small''\<rparr>
                # replicate 3 \<lparr>Input = [ascii ''thanks''],
                                 EmbeddingRequest.Model = ''text-embedding-3-small''\<rparr>\<rparr>"
  let ?err = "Wrapf ''failed to generate embeddings: %w'' []
                (Wrapf ''failed to process batch %d-%d: %w'' [Num 0, Num 1]
                  (Wrapf ''all retry attempts failed: %w'' [] (Errorf ''HTTP 500'')))"
  let ?done = "\<lparr>Processed = 1, Skipped = 0, Failed = 0, ReviewIDs = [''r1'']\<rparr>"
  have r1: "0 < length ?one" by simp
  have r2: "?one = slice ?one 0 (min (0 + 1) (length ?one))" by (simp add: slice_def)
  have r3: "EmbedBatch ?E3 (s_embedder ?S) (fst (prepareTexts ?one)) demo_world
              = (Return ([ascii ''good app''], None), ?V1)"
    by code_simp
  have r4: "filterNonEmptyResponses (snd (prepareTexts ?one)) \<noteq> []" by code_simp
  have r5: "EmbedBatch ?E3 (s_embedder ?S) (filterNonEmptyResponses (snd (prepareTexts ?one))) ?V1
              = (Return ([], Some ?err), ?V4)"
    by code_simp
  note inst3 = retry_bound_and_failed_sub_batch
    [where env = ?E3 and s = ?S and i = 0 and reviews = ?one and batch = ?one and B = 1
       and ws = demo_world and contentVectors = "[ascii ''good app'']" and wc = ?V1
       and responseVectors = "[]" and err = ?err and wr = ?V4 and result = empty_result]
  from inst3 r1 r2 r3 r4 r5
  have q: "processBatch ?E3 ?S ?one demo_world
        = (case storeVectors ?E3 ?S ?one [ascii ''good app''] [] ?V4 of
             (Panic p, wt) \<Rightarrow> (Panic p, wt)
           | (Return batchResult, wt) \<Rightarrow> (Return (batchResult, None), wt))"
    by blast
  have sv: "fst (storeVectors ?E3 ?S ?one [ascii ''good app''] [] ?V4) = Return ?done" by code_simp
  then obtain wt where st: "storeVectors ?E3 ?S ?one [ascii ''good app''] [] ?V4 = (Return ?done, wt)"
    by (cases "storeVectors ?E3 ?S ?one [ascii ''good app''] [] ?V4") simp
  from q st have c4: "fst (processBatch ?E3 ?S ?one demo_world) = Return (?done, None)" by simp
  from inst3 r1 r2 r3 r4 r5 st
  have l3: "processReviewsInBatches_loop (processBatch ?E3 ?S) 1 ?one 0 empty_result demo_world
        = processReviewsInBatches_loop (processBatch ?E3 ?S) 1 ?one (0 + 1)
            (add_result empty_result ?done) wt"
    by blast
  have "processReviewsInBatches_loop (processBatch ?E3 ?S) 1 ?one (0 + 1)
            (add_result empty_result ?done) wt = Some (Return (add_result empty_result ?done), wt)"
    by (subst processReviewsInBatches_loop.simps) simp
  with l3 have c5: "fst (the (processReviewsInBatches_loop (processBatch ?E3 ?S) 1 ?one 0 empty_result demo_world))
     = Return ?done"
    by (simp add: add_result_def empty_result_def)
  from c1 c2 c3 c4 c5 show ?thesis by (intro conjI)
qed

text \<open>
  The claim as stated, for every provider call, fails for the call that embeds the response
  texts: with a provider that answers the first request and fails all later ones, the call
  for the response text of the record is attempted 3 times (\<open>MaxRetries = 2\<close>) and fails,
  yet the sub-batch is processed, not failed, and the record is stored without a response
  vector.
\<close>

theorem failed_response_call_counterexample:
  "fst (processBatch (demo_env (\<lambda>k. if 1 \<le> k then Some (Errorf ''HTTP 500'') else None) (\<lambda>k. False) [])
          (demo_service (OpenAIEmbedder demo_openai))
          [demo_review ''r1'' ''good app'' (Some ''thanks'')] demo_world)
     = Return (\<lparr>Processed = 1, Skipped = 0, Failed = 0, ReviewIDs = [''r1'']\<rparr>, None)
   \<and> map Input (requests (snd (processBatch
          (demo_env (\<lambda>k. if 1 \<le> k then Some (Errorf ''HTTP 500'') else None) (\<lambda>k. False) [])
          (demo_service (OpenAIEmbedder demo_openai))
          [demo_review ''r1'' ''good app'' (Some ''thanks'')] demo_world)))
     = [[ascii ''good app''], [ascii ''thanks''], [ascii ''thanks''], [ascii ''thanks'']]
   \<and> map (\<lambda>row. (re_review_id row, re_response_vec row))
       (review_embeddings (snd (processBatch
          (demo_env (\<lambda>k. if 1 \<le> k then Some (Errorf ''HTTP 500'') else None) (\<lambda>k. False) [])
          (demo_service (OpenAIEmbedder demo_openai))
          [demo_review ''r1'' ''good app'' (Some ''thanks'')] demo_world)))
     = [(''r1'', None)]"
  by code_simp

section \<open>The claims about the page loop\<close>

text \<open>
  C3, as amended. \<open>pages_done \<dots> k = Some (result, w)\<close> says that \<open>k\<close> full pages were
  processed without the context being cancelled, \<open>result\<close> being the sum of their results.
  If the next page is full as well and the context is found cancelled after it has been
  processed, \<^verbatim>\<open>processAllReviews\<close> returns the result accumulated over all \<open>k + 1\<close>
  pages together with the cancellation error, and \<^verbatim>\<open>RunOnce\<close> returns the empty
  result together with that error, wrapped.
\<close>

theorem cancellation_between_pages:
  assumes "pages_done env s filters P w0 k = Some (result, w)"
    and "GetCleanReviewsForVectorization env filters P (k * P) w = ((reviews, None), w1)"
    and "reviews \<noteq> []" and "\<not> length reviews < P"
    and "processReviewsInBatches env s reviews w1 = Some (Return batchResult, w2)"
    and "ctx_done env (length (queries w2))"
  shows "processAllReviews_loop env s filters P 0 empty_result w0
           = Some (Return (add_result result batchResult, Some Canceled), w2)
    \<and> (filters = \<lparr>ForceRecompute = ForceRecompute req, FilterAppID = FilterAppID req,
                    Countries = Countries req, Languages = Languages req,
                    DateFrom = DateFrom req, DateTo = DateTo req\<rparr>
         \<and> P = determineBatchSize s (Limit req) \<longrightarrow>
        processAllReviews env s req P w0
           = Some (Return (add_result result batchResult, Some Canceled), w2)
        \<and> RunOnce env s req w0
           = Some (Return (empty_result, Some (Wrapf ''failed to process reviews: %w'' [] Canceled)), w2))"
proof -
  have "processAllReviews_loop env s filters P 0 empty_result w0
      = processAllReviews_loop env s filters P (k * P) result w"
    using assms(1) by (rule pages_done_loop)
  also have "\<dots> = Some (Return (add_result result batchResult, Some Canceled), w2)"
    using assms(2-6) by (rule processAllReviews_loop_cancelled)
  finally have 1: "processAllReviews_loop env s filters P 0 empty_result w0
      = Some (Return (add_result result batchResult, Some Canceled), w2)" .
  show ?thesis
  proof (intro conjI impI)
    show "processAllReviews_loop env s filters P 0 empty_result w0
      = Some (Return (add_result result batchResult, Some Canceled), w2)" by (rule 1)
  next
    assume eq: "filters = \<lparr>ForceRecompute = ForceRecompute req, FilterAppID = FilterAppID req,
                    Countries = Countries req, Languages = Languages req,
                    DateFrom = DateFrom req, DateTo = DateTo req\<rparr>
         \<and> P = determineBatchSize s (Limit req)"
    with 1 show 2: "processAllReviews env s req P w0
           = Some (Return (add_result result batchResult, Some Canceled), w2)"
      by (simp add: processAllReviews_def)
    from eq have "RunOnce env s req w0 =
        (case processAllReviews env s req P w0 of
           None \<Rightarrow> None
         | Some (Panic p, w1) \<Rightarrow> Some (Panic p, w1)
         | Some (Return (result, Some err), w1) \<Rightarrow>
             Some (Return (empty_result, Some (Wrapf ''failed to process reviews: %w'' [] err)), w1)
         | Some (Return (result, None), w1) \<Rightarrow> Some (Return (result, None), w1))"
      by (simp add: RunOnce_def Let_def)
    with 2 show "RunOnce env s req w0
           = Some (Return (empty_result, Some (Wrapf ''failed to process reviews: %w'' [] Canceled)), w2)"
      by simp
  qed
qed

theorem cancellation_between_pages_witness:
  "map_option fst (pages_done (demo_env (\<lambda>k. None) (\<lambda>n. n = 2) demo_rows) (demo_service (StubEmbedder 2))
       (demo_filters True) 2 demo_world 1)
     = Some \<lparr>Processed = 2, Skipped = 0, Failed = 0, ReviewIDs = [''r1'', ''r2'']\<rparr>
   \<and> map_option fst (processAllReviews (demo_env (\<lambda>k. None) (\<lambda>n. n = 2) demo_rows)
       (demo_service (StubEmbedder 2)) (demo_request True 0) 2 demo_world)
     = Some (Return (\<lparr>Processed = 4, Skipped = 0, Failed = 0, ReviewIDs = [''r1'', ''r2'', ''r3'', ''r4'']\<rparr>,
                     Some Canceled))
   \<and> map_option fst (RunOnce (demo_env (\<lambda>k. None) (\<lambda>n. n = 2) demo_rows)
       (demo_service (StubEmbedder 2)) (demo_request True 0) demo_world)
     = Some (Return (empty_result, Some (Wrapf ''failed to process reviews: %w'' [] Canceled)))"
proof -
  let ?E = "demo_env (\<lambda>k. None) (\<lambda>n. n = 2) demo_rows"
  let ?S = "demo_service (StubEmbedder 2)"
  let ?F = "demo_filters True"
  let ?pd = "pages_done ?E ?S ?F 2 demo_world 1"
  let ?w = "snd (the ?pd)"
  let ?r = "\<lparr>Processed = 2, Skipped = 0, Failed = 0, ReviewIDs = [''r1'', ''r2'']\<rparr>"
  let ?reviews = "[demo_review ''r3'' ''fine app'' None, demo_review ''r4'' ''nice app'' None]"
  let ?w1 = "snd (GetCleanReviewsForVectorization ?E ?F 2 (1 * 2) ?w)"
  let ?pr = "processReviewsInBatches ?E ?S ?reviews ?w1"
  let ?br = "\<lparr>Processed = 2, Skipped = 0, Failed = 0, ReviewIDs = [''r3'', ''r4'']\<rparr>"
  let ?w2 = "snd (the ?pr)"
  have pd: "map_option fst ?pd = Some ?r" by code_simp
  then have h1: "?pd = Some (?r, ?w)" by (cases ?pd) auto
  have "fst (GetCleanReviewsForVectorization ?E ?F 2 (1 * 2) ?w) = (?reviews, None)" by code_simp
  then have h2: "GetCleanReviewsForVectorization ?E ?F 2 (1 * 2) ?w = ((?reviews, None), ?w1)"
    by (cases "GetCleanReviewsForVectorization ?E ?F 2 (1 * 2) ?w") simp
  have h3: "?reviews \<noteq> []" by simp
  have h4: "\<not> length ?reviews < 2" by simp
  have "map_option fst ?pr = Some (Return ?br)" by code_simp
  then have h5: "?pr = Some (Return ?br, ?w2)" by (cases ?pr) auto
  have h6: "ctx_done ?E (length (queries ?w2))" by code_simp
  have f: "?F = \<lparr>ForceRecompute = ForceRecompute (demo_request True 0),
                  FilterAppID = FilterAppID (demo_request True 0),
                  Countries = Countries (demo_request True 0), Languages = Languages (demo_request True 0),
                  DateFrom = DateFrom (demo_request True 0), DateTo = DateTo (demo_request True 0)\<rparr>
         \<and> 2 = determineBatchSize ?S (Limit (demo_request True 0))"
    by (simp add: demo_filters_def demo_request_def determineBatchSize_def demo_service_def demo_config_def)
  from cancellation_between_pages [OF h1 h2 h3 h4 h5 h6, of "demo_request True 0"] f
  have c: "processAllReviews ?E ?S (demo_request True 0) 2 demo_world
           = Some (Return (add_result ?r ?br, Some Canceled), ?w2)"
    and d: "RunOnce ?E ?S (demo_request True 0) demo_world
           = Some (Return (empty_result, Some (Wrapf ''failed to process reviews: %w'' [] Canceled)), ?w2)"
    by blast+
  have "add_result ?r ?br = \<lparr>Processed = 4, Skipped = 0, Failed = 0, ReviewIDs = [''r1'', ''r2'', ''r3'', ''r4'']\<rparr>"
    by (simp add: add_result_def)
  with c have c': "map_option fst (processAllReviews ?E ?S (demo_request True 0) 2 demo_world)
     = Some (Return (\<lparr>Processed = 4, Skipped = 0, Failed = 0, ReviewIDs = [''r1'', ''r2'', ''r3'', ''r4'']\<rparr>,
                     Some Canceled))"
    by simp
  from d have d': "map_option fst (RunOnce ?E ?S (demo_request True 0) demo_world)
     = Some (Return (empty_result, Some (Wrapf ''failed to process reviews: %w'' [] Canceled)))"
    by simp
  from pd c' d' show ?thesis by (intro conjI)
qed

text \<open>
  The claim as stated fails for the run as its caller sees it: with five eligible records,
  pages of two and the context cancelled after the first page, \<^verbatim>\<open>processAllReviews\<close>
  returns the two processed records with the error, and \<^verbatim>\<open>RunOnce\<close> returns the
  empty result with the error.
\<close>

theorem run_once_drops_partial_result_counterexample:
  "map_option fst (processAllReviews (demo_env (\<lambda>k. None) (\<lambda>n. n = 1) demo_rows)
       (demo_service (StubEmbedder 2)) (demo_request True 0) 2 demo_world)
     = Some (Return (\<lparr>Processed = 2, Skipped = 0, Failed = 0, ReviewIDs = [''r1'', ''r2'']\<rparr>,
                     Some (Errorf ''context canceled'')))
   \<and> map_option fst (RunOnce (demo_env (\<lambda>k. None) (\<lambda>n. n = 1) demo_rows)
       (demo_service (StubEmbedder 2)) (demo_request True 0) demo_world)
     = Some (Return (\<lparr>Processed = 0, Skipped = 0, Failed = 0, ReviewIDs = []\<rparr>,
                     Some (Wrapf ''failed to process reviews: %w'' [] (Errorf ''context canceled''))))"
  by code_simp

text \<open>
  C5, as amended. With a positive page size and a positive sub-batch size the page loop
  always returns. When the set of eligible records does not change during the run (a
  force-recompute run) and has \<open>C\<close> records, a run that ends without an error issues
  exactly \<open>C div P + 1\<close> page queries, at the offsets \<open>0, P, 2 P, \<dots>\<close>: that is
  \<open>\<lceil>C / P\<rceil>\<close> when \<open>P\<close> does not divide \<open>C\<close>, and one more, a last empty page, when it
  does. An empty page ends the loop; a page shorter than the page size is processed and
  then ends the loop.
\<close>

theorem pagination_fetches:
  assumes "0 < P" and "0 < BatchSize (Vectorizer (s_cfg s))"
  shows "(\<exists>r. processAllReviews_loop env s filters P 0 empty_result w = Some r)
    \<and> (ForceRecompute filters
        \<and> processAllReviews_loop env s filters P 0 empty_result w = Some (Return (result, None), w1) \<longrightarrow>
        queries w1 = queries w @ map (\<lambda>k. (P, k * P)) [0..<length (eligible env filters w) div P + 1]
        \<and> (\<not> P dvd length (eligible env filters w) \<longrightarrow>
             length (queries w1) = length (queries w) + (length (eligible env filters w) + P - 1) div P))
    \<and> (GetCleanReviewsForVectorization env filters P offset w' = (([], None), w1') \<longrightarrow>
        processAllReviews_loop env s filters P offset acc w' = Some (Return (acc, None), w1'))
    \<and> (GetCleanReviewsForVectorization env filters P offset w' = ((reviews, None), w1')
        \<and> reviews \<noteq> [] \<and> length reviews < P
        \<and> processReviewsInBatches env s reviews w1' = Some (Return batchResult, w2') \<longrightarrow>
        processAllReviews_loop env s filters P offset acc w'
          = Some (Return (add_result acc batchResult, None), w2'))"
proof (intro conjI impI)
  show "\<exists>r. processAllReviews_loop env s filters P 0 empty_result w = Some r"
    using assms(2) by (rule processAllReviews_loop_terminates)
next
  assume a: "ForceRecompute filters
        \<and> processAllReviews_loop env s filters P 0 empty_result w = Some (Return (result, None), w1)"
  then have q: "queries w1 = queries w
      @ map (\<lambda>k. (P, 0 + k * P)) [0..<(length (eligible env filters w) - 0) div P + 1]"
    using processAllReviews_loop_queries [of env s filters P 0 empty_result w result w1] assms(1) by blast
  then show q': "queries w1 = queries w @ map (\<lambda>k. (P, k * P)) [0..<length (eligible env filters w) div P + 1]"
    by simp
  assume "\<not> P dvd length (eligible env filters w)"
  with assms(1) have "(length (eligible env filters w) + P - 1) div P = length (eligible env filters w) div P + 1"
    by (rule ceil_div_not_dvd)
  with q' show "length (queries w1) = length (queries w) + (length (eligible env filters w) + P - 1) div P"
    by simp
next
  assume "GetCleanReviewsForVectorization env filters P offset w' = (([], None), w1')"
  then show "processAllReviews_loop env s filters P offset acc w' = Some (Return (acc, None), w1')"
    by (rule processAllReviews_loop_empty_page)
next
  assume "GetCleanReviewsForVectorization env filters P offset w' = ((reviews, None), w1')
        \<and> reviews \<noteq> [] \<and> length reviews < P
        \<and> processReviewsInBatches env s reviews w1' = Some (Return batchResult, w2')"
  then show "processAllReviews_loop env s filters P offset acc w'
          = Some (Return (add_result acc batchResult, None), w2')"
    using processAllReviews_loop_short_page [of env filters P offset w' reviews w1' s batchResult w2' acc]
    by blast
qed

theorem pagination_fetches_witness:
  "(0 :: nat) < 2 \<and> 0 < BatchSize (Vectorizer (s_cfg (demo_service (StubEmbedder 2))))
   \<and> ForceRecompute (demo_filters True)
   \<and> length (eligible (demo_env (\<lambda>k. None) (\<lambda>n. False) demo_rows) (demo_filters True) demo_world) = 5
   \<and> map_option (\<lambda>r. (fst r, queries (snd r)))
        (processAllReviews_loop (demo_env (\<lambda>k. None) (\<lambda>n. False) demo_rows)
           (demo_service (StubEmbedder 2)) (demo_filters True) 2 0 empty_result demo_world)
      = Some (Return (\<lparr>Processed = 5, Skipped = 0, Failed = 0,
                        ReviewIDs = [''r1'', ''r2'', ''r3'', ''r4'', ''r5'']\<rparr>, None),
              [(2, 0), (2, 2), (2, 4)])
   \<and> map_option fst (processAllReviews_loop (demo_env (\<lambda>k. None) (\<lambda>n. False) demo_rows)
           (demo_service (StubEmbedder 2)) (demo_filters True) 2 6 empty_result demo_world)
      = Some (Return (empty_result, None))
   \<and> map_option fst (processAllReviews_loop (demo_env (\<lambda>k. None) (\<lambda>n. False) demo_rows)
           (demo_service (StubEmbedder 2)) (demo_filters True) 2 4 empty_result demo_world)
      = Some (Return (\<lparr>Processed = 1, Skipped = 0, Failed = 0, ReviewIDs = [''r5'']\<rparr>, None))"
proof -
  let ?E = "demo_env (\<lambda>k. None) (\<lambda>n. False) demo_rows"
  let ?S = "demo_service (StubEmbedder 2)"
  let ?F = "demo_filters True"
  let ?run = "processAllReviews_loop ?E ?S ?F 2 0 empty_result demo_world"
  let ?R = "\<lparr>Processed = 5, Skipped = 0, Failed = 0, ReviewIDs = [''r1'', ''r2'', ''r3'', ''r4'', ''r5'']\<rparr>"
  have p: "(0 :: nat) < 2" by simp
  have b: "0 < BatchSize (Vectorizer (s_cfg ?S))" by (simp add: demo_service_def demo_config_def)
  have f: "ForceRecompute ?F" by (simp add: demo_filters_def)
  have c: "length (eligible ?E ?F demo_world) = 5" by code_simp
  have "map_option fst ?run = Some (Return (?R, None))" by code_simp
  then have run: "?run = Some (Return (?R, None), snd (the ?run))" by (cases ?run) auto
  \<comment> \<open>the page at offset 6 is empty\<close>
  let ?w6 = "snd (GetCleanReviewsForVectorization ?E ?F 2 6 demo_world)"
  have "fst (GetCleanReviewsForVectorization ?E ?F 2 6 demo_world) = ([], None)" by code_simp
  then have e: "GetCleanReviewsForVectorization ?E ?F 2 6 demo_world = (([], None), ?w6)"
    by (cases "GetCleanReviewsForVectorization ?E ?F 2 6 demo_world") simp
  \<comment> \<open>the page at offset 4 is short\<close>
  let ?w4 = "snd (GetCleanReviewsForVectorization ?E ?F 2 4 demo_world)"
  let ?reviews = "[demo_review ''r5'' ''slow app'' None]"
  let ?pr = "processReviewsInBatches ?E ?S ?reviews ?w4"
  let ?br = "\<lparr>Processed = 1, Skipped = 0, Failed = 0, ReviewIDs = [''r5'']\<rparr>"
  have "fst (GetCleanReviewsForVectorization ?E ?F 2 4 demo_world) = (?reviews, None)" by code_simp
  then have s1: "GetCleanReviewsForVectorization ?E ?F 2 4 demo_world = ((?reviews, None), ?w4)"
    by (cases "GetCleanReviewsForVectorization ?E ?F 2 4 demo_world") simp
  have s2: "?reviews \<noteq> [] \<and> length ?reviews < 2" by simp
  have "map_option fst ?pr = Some (Return ?br)" by code_simp
  then have s3: "?pr = Some (Return ?br, snd (the ?pr))" by (cases ?pr) auto
  note i1 = pagination_fetches [OF p b, of ?E ?F demo_world ?R "snd (the ?run)" 6 demo_world ?w6 empty_result]
  note i2 = pagination_fetches [OF p b, of ?E ?F demo_world ?R "snd (the ?run)" 4 demo_world ?w4 empty_result
      ?reviews ?br "snd (the ?pr)"]
  from i1 f run have "queries (snd (the ?run))
      = queries demo_world @ map (\<lambda>k. (2, k * 2)) [0..<length (eligible ?E ?F demo_world) div 2 + 1]"
    by blast
  also have "\<dots> = [(2, 0), (2, 2), (2, 4)]" by code_simp
  finally have q: "queries (snd (the ?run)) = [(2, 0), (2, 2), (2, 4)]" .
  from run q have c1: "map_option (\<lambda>r. (fst r, queries (snd r))) ?run
      = Some (Return (?R, None), [(2, 0), (2, 2), (2, 4)])"
    by (cases ?run) auto
  from i1 e have "processAllReviews_loop ?E ?S ?F 2 6 empty_result demo_world = Some (Return (empty_result, None), ?w6)"
    by blast
  then have c2: "map_option fst (processAllReviews_loop ?E ?S ?F 2 6 empty_result demo_world)
      = Some (Return (empty_result, None))"
    by simp
  from i2 s1 s2 s3 have "processAllReviews_loop ?E ?S ?F 2 4 empty_result demo_world
      = Some (Return (add_result empty_result ?br, None), snd (the ?pr))"
    by blast
  moreover have "add_result empty_result ?br = ?br" by (simp add: add_result_def empty_result_def)
  ultimately have c3: "map_option fst (processAllReviews_loop ?E ?S ?F 2 4 empty_result demo_world)
      = Some (Return (?br, None))"
    by simp
  from p b f c c1 c2 c3 show ?thesis by (intro conjI)
qed

text \<open>
  The claim as stated, with exactly \<open>\<lceil>C / P\<rceil>\<close> page queries, fails when the page size
  divides the number of records: two eligible records and pages of two take two queries, the
  second for an empty page, and \<open>\<lceil>2 / 2\<rceil> = 1\<close>.
\<close>

theorem pagination_extra_fetch_counterexample:
  "length (eligible (demo_env (\<lambda>k. None) (\<lambda>n. False) (take 2 demo_rows)) (demo_filters True) demo_world) = 2
   \<and> map_option (\<lambda>r. (fst r, queries (snd r)))
        (processAllReviews_loop (demo_env (\<lambda>k. None) (\<lambda>n. False) (take 2 demo_rows))
           (demo_service (StubEmbedder 2)) (demo_filters True) 2 0 empty_result demo_world)
      = Some (Return (\<lparr>Processed = 2, Skipped = 0, Failed = 0, ReviewIDs = [''r1'', ''r2'']\<rparr>, None),
              [(2, 0), (2, 2)])
   \<and> ((2 :: nat) + 2 - 1) div 2 = 1"
  by code_simp

end
